theory Spec2Isabelle
  imports Complex_Main "HOL-Library.Word"
begin

unbundle bit_operations_syntax

section \<open>Fixed-point constants of ColorLUT.c\<close>

definition PRECISION_BITS :: nat where
  "PRECISION_BITS = 16 - 8 - 2"

definition PRECISION_ROUNDING :: int where
  "PRECISION_ROUNDING = 2 ^ (PRECISION_BITS - 1)"

definition SCALE_BITS :: nat where
  "SCALE_BITS = 32 - 8 - 6"

definition SCALE_MASK :: int where
  "SCALE_MASK = 2 ^ SCALE_BITS - 1"

definition SHIFT_BITS :: nat where
  "SHIFT_BITS = 16 - 1"

section \<open>Machine types\<close>

type_synonym UINT8 = "8 word"
type_synonym INT16 = "16 word"
type_synonym UINT32 = "32 word"

text \<open>
  An SSE register \<^verbatim>\<open>__m128i\<close> is kept as its four 32-bit lanes, lane 0 first.
  The 16-bit and 8-bit views used by some instructions are obtained by splitting a
  lane: \<open>lo16\<close>/\<open>hi16\<close> are bits 0..15 and 16..31 of a lane, \<open>lo8\<close>/\<open>hi8\<close> are the
  two bytes of a 16-bit lane (x86 is little-endian, so the low part comes first in
  memory).
\<close>

datatype m128i = M128 (e0: UINT32) (e1: UINT32) (e2: UINT32) (e3: UINT32)

definition lo16 :: "UINT32 \<Rightarrow> INT16" where
  "lo16 w = ucast w"

definition hi16 :: "UINT32 \<Rightarrow> INT16" where
  "hi16 w = ucast (drop_bit 16 w)"

definition cat16 :: "INT16 \<Rightarrow> INT16 \<Rightarrow> UINT32" where
  "cat16 l h = ucast l OR push_bit 16 (ucast h)"

definition lo8 :: "INT16 \<Rightarrow> UINT8" where
  "lo8 w = ucast w"

definition hi8 :: "INT16 \<Rightarrow> UINT8" where
  "hi8 w = ucast (drop_bit 8 w)"

definition cat8 :: "UINT8 \<Rightarrow> UINT8 \<Rightarrow> INT16" where
  "cat8 l h = ucast l OR push_bit 8 (ucast h)"

definition bytes32 :: "UINT32 \<Rightarrow> UINT8 list" where
  "bytes32 w = [lo8 (lo16 w), hi8 (lo16 w), lo8 (hi16 w), hi8 (hi16 w)]"

definition word32_of_bytes :: "UINT8 list \<Rightarrow> UINT32" where
  "word32_of_bytes bs = cat16 (cat8 (bs ! 0) (bs ! 1)) (cat8 (bs ! 2) (bs ! 3))"

fun m128i_bytes :: "m128i \<Rightarrow> UINT8 list" where
  "m128i_bytes (M128 a b c d) = bytes32 a @ bytes32 b @ bytes32 c @ bytes32 d"

text \<open>Only applied to lists of exactly 16 bytes.\<close>

definition m128i_of_bytes :: "UINT8 list \<Rightarrow> m128i" where
  "m128i_of_bytes bs =
     M128 (word32_of_bytes (take 4 bs)) (word32_of_bytes (take 4 (drop 4 bs)))
          (word32_of_bytes (take 4 (drop 8 bs))) (word32_of_bytes (take 4 (drop 12 bs)))"

section \<open>The SSE intrinsics used by the transform\<close>

fun map_epi32 :: "(UINT32 \<Rightarrow> UINT32) \<Rightarrow> m128i \<Rightarrow> m128i" where
  "map_epi32 f (M128 a b c d) = M128 (f a) (f b) (f c) (f d)"

fun zip_epi32 :: "(UINT32 \<Rightarrow> UINT32 \<Rightarrow> UINT32) \<Rightarrow> m128i \<Rightarrow> m128i \<Rightarrow> m128i" where
  "zip_epi32 f (M128 a b c d) (M128 a' b' c' d') = M128 (f a a') (f b b') (f c c') (f d d')"

text \<open>\<^verbatim>\<open>_mm_set_epi32(e3, e2, e1, e0)\<close>: the arguments are C ints, the last one is lane 0.\<close>

definition mm_set_epi32 :: "int \<Rightarrow> int \<Rightarrow> int \<Rightarrow> int \<Rightarrow> m128i" where
  "mm_set_epi32 a3 a2 a1 a0 = M128 (word_of_int a0) (word_of_int a1) (word_of_int a2) (word_of_int a3)"

definition mm_set1_epi32 :: "int \<Rightarrow> m128i" where
  "mm_set1_epi32 a = M128 (word_of_int a) (word_of_int a) (word_of_int a) (word_of_int a)"

text \<open>\<^verbatim>\<open>_mm_set_epi8(e15, ..., e0)\<close>: sixteen chars, the last one is byte 0.\<close>

definition mm_set_epi8 :: "int list \<Rightarrow> m128i" where
  "mm_set_epi8 es = m128i_of_bytes (rev (map word_of_int es))"

definition mm_setzero_si128 :: m128i where
  "mm_setzero_si128 = M128 0 0 0 0"

definition mm_mullo_epi32 :: "m128i \<Rightarrow> m128i \<Rightarrow> m128i" where
  "mm_mullo_epi32 = zip_epi32 (\<lambda>a b. a * b)"

definition mm_add_epi32 :: "m128i \<Rightarrow> m128i \<Rightarrow> m128i" where
  "mm_add_epi32 = zip_epi32 (\<lambda>a b. a + b)"

definition mm_sub_epi32 :: "m128i \<Rightarrow> m128i \<Rightarrow> m128i" where
  "mm_sub_epi32 = zip_epi32 (\<lambda>a b. a - b)"

definition mm_and_si128 :: "m128i \<Rightarrow> m128i \<Rightarrow> m128i" where
  "mm_and_si128 = zip_epi32 (\<lambda>a b. a AND b)"

definition mm_or_si128 :: "m128i \<Rightarrow> m128i \<Rightarrow> m128i" where
  "mm_or_si128 = zip_epi32 (\<lambda>a b. a OR b)"

definition mm_srli_epi32 :: "m128i \<Rightarrow> nat \<Rightarrow> m128i" where
  "mm_srli_epi32 a n = map_epi32 (drop_bit n) a"

definition mm_srai_epi32 :: "m128i \<Rightarrow> nat \<Rightarrow> m128i" where
  "mm_srai_epi32 a n = map_epi32 (signed_drop_bit n) a"

definition mm_slli_epi32 :: "m128i \<Rightarrow> nat \<Rightarrow> m128i" where
  "mm_slli_epi32 a n = map_epi32 (push_bit n) a"

text \<open>Zero-extends the four lowest bytes of the register to the four lanes.\<close>

fun mm_cvtepu8_epi32 :: "m128i \<Rightarrow> m128i" where
  "mm_cvtepu8_epi32 (M128 a b c d) =
     M128 (ucast (lo8 (lo16 a))) (ucast (hi8 (lo16 a))) (ucast (lo8 (hi16 a))) (ucast (hi8 (hi16 a)))"

text \<open>
  \<^verbatim>\<open>_mm_madd_epi16\<close>: the signed 16-bit halves of each lane are multiplied pairwise
  and the two 32-bit products are added in the lane (wrapping).
\<close>

definition madd16 :: "UINT32 \<Rightarrow> UINT32 \<Rightarrow> UINT32" where
  "madd16 a b = word_of_int (sint (lo16 a) * sint (lo16 b)) + word_of_int (sint (hi16 a) * sint (hi16 b))"

definition mm_madd_epi16 :: "m128i \<Rightarrow> m128i \<Rightarrow> m128i" where
  "mm_madd_epi16 = zip_epi32 madd16"

fun mm_hadd_epi32 :: "m128i \<Rightarrow> m128i \<Rightarrow> m128i" where
  "mm_hadd_epi32 (M128 a0 a1 a2 a3) (M128 b0 b1 b2 b3) = M128 (a1 + a0) (a3 + a2) (b1 + b0) (b3 + b2)"

definition lane :: "m128i \<Rightarrow> nat \<Rightarrow> UINT32" where
  "lane a i = (if i = 0 then e0 a else if i = 1 then e1 a else if i = 2 then e2 a else e3 a)"

text \<open>\<^verbatim>\<open>_mm_extract_epi32\<close> returns the lane as a C int.\<close>

definition mm_extract_epi32 :: "m128i \<Rightarrow> nat \<Rightarrow> int" where
  "mm_extract_epi32 a i = sint (lane a (i mod 4))"

definition mm_cvtsi128_si32 :: "m128i \<Rightarrow> UINT32" where
  "mm_cvtsi128_si32 a = e0 a"

text \<open>Lane \<open>i\<close> of the result is the lane of \<open>a\<close> selected by bits \<open>2i\<close>, \<open>2i+1\<close> of \<open>imm\<close>.\<close>

definition mm_shuffle_epi32 :: "m128i \<Rightarrow> nat \<Rightarrow> m128i" where
  "mm_shuffle_epi32 a imm =
     M128 (lane a (imm mod 4)) (lane a (imm div 4 mod 4))
          (lane a (imm div 16 mod 4)) (lane a (imm div 64 mod 4))"

text \<open>Byte \<open>i\<close> of the result is 0 when bit 7 of byte \<open>i\<close> of \<open>b\<close> is set, else the byte
  of \<open>a\<close> selected by the low four bits of byte \<open>i\<close> of \<open>b\<close>.\<close>

definition mm_shuffle_epi8 :: "m128i \<Rightarrow> m128i \<Rightarrow> m128i" where
  "mm_shuffle_epi8 a b =
     m128i_of_bytes (map (\<lambda>m. if bit m 7 then 0 else m128i_bytes a ! unat (m AND 15)) (m128i_bytes b))"

text \<open>Signed saturation of a 32-bit lane to 16 bits, and of a signed 16-bit lane to an
  unsigned byte.\<close>

definition sat16 :: "UINT32 \<Rightarrow> INT16" where
  "sat16 w = word_of_int (max (- 32768) (min 32767 (sint w)))"

definition satu8 :: "INT16 \<Rightarrow> UINT8" where
  "satu8 w = word_of_int (max 0 (min 255 (sint w)))"

fun mm_packs_epi32 :: "m128i \<Rightarrow> m128i \<Rightarrow> m128i" where
  "mm_packs_epi32 (M128 a0 a1 a2 a3) (M128 b0 b1 b2 b3) =
     M128 (cat16 (sat16 a0) (sat16 a1)) (cat16 (sat16 a2) (sat16 a3))
          (cat16 (sat16 b0) (sat16 b1)) (cat16 (sat16 b2) (sat16 b3))"

fun mm_packus_epi16 :: "m128i \<Rightarrow> m128i \<Rightarrow> m128i" where
  "mm_packus_epi16 (M128 a0 a1 a2 a3) (M128 b0 b1 b2 b3) =
     M128 (cat16 (cat8 (satu8 (lo16 a0)) (satu8 (hi16 a0))) (cat8 (satu8 (lo16 a1)) (satu8 (hi16 a1))))
          (cat16 (cat8 (satu8 (lo16 a2)) (satu8 (hi16 a2))) (cat8 (satu8 (lo16 a3)) (satu8 (hi16 a3))))
          (cat16 (cat8 (satu8 (lo16 b0)) (satu8 (hi16 b0))) (cat8 (satu8 (lo16 b1)) (satu8 (hi16 b1))))
          (cat16 (cat8 (satu8 (lo16 b2)) (satu8 (hi16 b2))) (cat8 (satu8 (lo16 b3)) (satu8 (hi16 b3))))"

section \<open>Memory\<close>

text \<open>
  A buffer is the list of elements readable from its base pointer; \<open>load_range buf off n\<close>
  reads the \<open>n\<close> elements \<open>off .. off + n - 1\<close>.  The C code does no
  bounds checking; an access outside the buffer is undefined behaviour in C and is the
  outcome \<open>None\<close> here.  The transform reports it as \<open>MemoryFault\<close> for every store and
  for every load whose value it uses.
\<close>

definition load_range :: "'a list \<Rightarrow> int \<Rightarrow> nat \<Rightarrow> 'a list option" where
  "load_range buf off n =
     (if 0 \<le> off \<and> nat off + n \<le> length buf then Some (take n (drop (nat off) buf)) else None)"

text \<open>A 16-byte load from a byte pointer: \<^verbatim>\<open>*(__m128i *) &rowIn[off]\<close>.\<close>

definition load_si128 :: "UINT8 list \<Rightarrow> int \<Rightarrow> m128i option" where
  "load_si128 buf off = map_option m128i_of_bytes (load_range buf off 16)"

text \<open>A 16-byte load from the INT16 table: \<^verbatim>\<open>_mm_loadu_si128((__m128i *) &table[off])\<close>
  reads the eight elements \<open>off .. off + 7\<close>.\<close>

definition mm_loadu_si128 :: "INT16 list \<Rightarrow> int \<Rightarrow> m128i option" where
  "mm_loadu_si128 table off =
     map_option (\<lambda>t. M128 (cat16 (t ! 0) (t ! 1)) (cat16 (t ! 2) (t ! 3))
                          (cat16 (t ! 4) (t ! 5)) (cat16 (t ! 6) (t ! 7)))
       (load_range table off 8)"

text \<open>The 32-bit store \<^verbatim>\<open>rowOut[x] = v\<close> through a \<^verbatim>\<open>UINT32 *\<close>: bytes \<open>4x .. 4x+3\<close>.\<close>

definition store_u32 :: "UINT8 list \<Rightarrow> nat \<Rightarrow> UINT32 \<Rightarrow> UINT8 list option" where
  "store_u32 buf x v =
     (if 4 * x + 4 \<le> length buf then Some (take (4 * x) buf @ bytes32 v @ drop (4 * x + 4) buf) else None)"

section \<open>Scalar helpers of ColorLUT.c\<close>

text \<open>
  Modelled from the spec: \<^verbatim>\<open>clip8_lookups\<close> is declared outside this file; the spec
  describes it as the monotonic saturating clip: indices below 0 give 0, indices above
  255 give 255, every other index gives itself.
\<close>

definition clip8_lookups :: "int \<Rightarrow> UINT8" where
  "clip8_lookups i = word_of_int (if i < 0 then 0 else if 255 < i then 255 else i)"

definition clip8 :: "int \<Rightarrow> UINT8" where
  "clip8 v = clip8_lookups ((v + PRECISION_ROUNDING) div 2 ^ PRECISION_BITS)"

text \<open>
  One channel of \<^verbatim>\<open>interpolate3\<close>/\<^verbatim>\<open>interpolate4\<close>: the operands are promoted to
  int, the sum is shifted right arithmetically and stored into an INT16.
\<close>

definition interpolate1 :: "INT16 \<Rightarrow> INT16 \<Rightarrow> INT16 \<Rightarrow> INT16" where
  "interpolate1 a b shift =
     word_of_int ((sint a * (2 ^ SHIFT_BITS - sint shift) + sint b * sint shift) div 2 ^ SHIFT_BITS)"

fun interpolate3 :: "INT16 \<times> INT16 \<times> INT16 \<Rightarrow> INT16 \<times> INT16 \<times> INT16 \<Rightarrow> INT16 \<Rightarrow> INT16 \<times> INT16 \<times> INT16" where
  "interpolate3 (a0, a1, a2) (b0, b1, b2) shift =
     (interpolate1 a0 b0 shift, interpolate1 a1 b1 shift, interpolate1 a2 b2 shift)"

definition table_index3D :: "int \<Rightarrow> int \<Rightarrow> int \<Rightarrow> int \<Rightarrow> int \<Rightarrow> int" where
  "table_index3D index1D index2D index3D size1D size1D_2D =
     index1D + index2D * size1D + index3D * size1D_2D"

section \<open>Images and errors\<close>

text \<open>
  Modelled from the spec: the image structure and its storage-type tags are declared
  outside this file.  An image has a pixel storage type, a band count, a width and a
  height, and row-addressable storage; \<open>image im ! y\<close> is the memory readable from the
  row pointer \<^verbatim>\<open>im->image[y]\<close>, four bytes per pixel.
\<close>

datatype imaging_type = IMAGING_TYPE_UINT8 | IMAGING_TYPE_INT32 | IMAGING_TYPE_FLOAT32 | IMAGING_TYPE_SPECIAL

record imaging =
  type :: imaging_type
  bands :: int
  xsize :: int
  ysize :: int
  image :: "UINT8 list list"

text \<open>
  \<open>ValueError\<close> is the error raised by the check on \<^verbatim>\<open>table_channels\<close>, \<open>ModeError\<close>
  the one of \<^verbatim>\<open>ImagingError_ModeError\<close>; both make the function return NULL.
  \<open>MemoryFault\<close> stands for a store, or a load of a value that is used, outside a buffer.
\<close>

datatype error = ValueError | ModeError | MemoryFault

section \<open>The transform\<close>

text \<open>
  The scale \<^verbatim>\<open>(size - 1) / 255.0 * (1 << SCALE_BITS)\<close> is computed in double precision
  and converted to int, which truncates towards zero.  It is modelled by the truncation
  of the exact quotient; lemma \<open>lut_scale_double\<close> below shows that every value within
  the rounding error of a double division truncates to the same integer for the sizes
  2..65.
\<close>

definition lut_scale :: "int \<Rightarrow> int" where
  "lut_scale sz =
     (let n = (sz - 1) * 2 ^ SCALE_BITS in if 0 \<le> n then n div 255 else - ((- n) div 255))"

definition scale :: "int \<Rightarrow> int \<Rightarrow> int \<Rightarrow> m128i" where
  "scale size1D size2D size3D = mm_set_epi32 0 (lut_scale size3D) (lut_scale size2D) (lut_scale size1D)"

definition scale_mask :: m128i where
  "scale_mask = mm_set1_epi32 SCALE_MASK"

definition index_mul :: "int \<Rightarrow> int \<Rightarrow> m128i" where
  "index_mul size1D size1D_2D = mm_set_epi32 0 size1D_2D size1D 1"

definition shuffle_source :: m128i where
  "shuffle_source = mm_set_epi8 [-1,-1, -1,-1, 11,10, 5,4, 9,8, 3,2, 7,6, 1,0]"

definition left_mask :: m128i where
  "left_mask = mm_set1_epi32 0x0000ffff"

definition right_mask :: m128i where
  "right_mask = mm_set1_epi32 0xffff0000"

text \<open>Lines 122-123 and 129-130: the fixed-point grid coordinate of the loaded pixel.\<close>

definition lut_index :: "m128i \<Rightarrow> m128i \<Rightarrow> m128i" where
  "lut_index sc px = mm_mullo_epi32 sc (mm_cvtepu8_epi32 px)"

text \<open>Lines 124-127 and 131-134: the flat offset of the base grid node.\<close>

definition lut_idx :: "int \<Rightarrow> m128i \<Rightarrow> m128i \<Rightarrow> int" where
  "lut_idx table_channels imul index =
     table_channels * mm_extract_epi32
       (mm_hadd_epi32 (mm_hadd_epi32
          (mm_madd_epi16 imul (mm_srli_epi32 index SCALE_BITS))
          mm_setzero_si128) mm_setzero_si128) 0"

text \<open>Lines 135-136: the fractional weight of each axis.\<close>

definition lut_frac :: "m128i \<Rightarrow> m128i" where
  "lut_frac index = mm_srli_epi32 (mm_and_si128 scale_mask index) (SCALE_BITS - SHIFT_BITS)"

text \<open>Lines 141-143: both weights of an axis packed into one lane.\<close>

definition lut_shift :: "m128i \<Rightarrow> m128i" where
  "lut_shift index =
     (let shift = lut_frac index
      in mm_or_si128 (mm_sub_epi32 (mm_set1_epi32 (2 ^ SHIFT_BITS - 1)) shift) (mm_slli_epi32 shift 16))"

text \<open>Lines 150-178: the registers of the three-channel blend.\<close>

record lut3_regs =
  leftleft :: m128i
  leftright :: m128i
  rightleft :: m128i
  rightright :: m128i
  left :: m128i
  right :: m128i
  result :: m128i

definition lut3_blend :: "INT16 list \<Rightarrow> int \<Rightarrow> int \<Rightarrow> int \<Rightarrow> m128i \<Rightarrow> lut3_regs option" where
  "lut3_blend table idx size1D size1D_2D shift =
     (let shift1D = mm_shuffle_epi32 shift 0x00;
          shift2D = mm_shuffle_epi32 shift 0x55;
          shift3D = mm_shuffle_epi32 shift 0xaa
      in case mm_loadu_si128 table (idx + 0) of None \<Rightarrow> None | Some s0 \<Rightarrow>
        (case mm_loadu_si128 table (idx + size1D * 3) of None \<Rightarrow> None | Some s1 \<Rightarrow>
        (case mm_loadu_si128 table (idx + size1D_2D * 3) of None \<Rightarrow> None | Some s2 \<Rightarrow>
        (case mm_loadu_si128 table (idx + size1D_2D * 3 + size1D * 3) of None \<Rightarrow> None | Some s3 \<Rightarrow>
          (let ll = mm_and_si128 (mm_srai_epi32 (mm_madd_epi16
                      (mm_shuffle_epi8 s0 shuffle_source) shift1D) SHIFT_BITS) left_mask;
               lr = mm_and_si128 (mm_slli_epi32 (mm_madd_epi16
                      (mm_shuffle_epi8 s1 shuffle_source) shift1D) (16 - SHIFT_BITS)) right_mask;
               rl = mm_and_si128 (mm_srai_epi32 (mm_madd_epi16
                      (mm_shuffle_epi8 s2 shuffle_source) shift1D) SHIFT_BITS) left_mask;
               rr = mm_and_si128 (mm_slli_epi32 (mm_madd_epi16
                      (mm_shuffle_epi8 s3 shuffle_source) shift1D) (16 - SHIFT_BITS)) right_mask;
               l = mm_and_si128 (mm_srai_epi32 (mm_madd_epi16
                      (mm_or_si128 ll lr) shift2D) SHIFT_BITS) left_mask;
               r = mm_and_si128 (mm_slli_epi32 (mm_madd_epi16
                      (mm_or_si128 rl rr) shift2D) (16 - SHIFT_BITS)) right_mask
           in Some \<lparr> leftleft = ll, leftright = lr, rightleft = rl, rightright = rr,
                     left = l, right = r,
                     result = mm_madd_epi16 (mm_or_si128 l r) shift3D \<rparr>)))))"

text \<open>Lines 180-185: rounding, the two saturating packs, and the 32-bit value stored.\<close>

definition lut3_pack :: "m128i \<Rightarrow> UINT32" where
  "lut3_pack res =
     (let r1 = mm_srai_epi32 (mm_add_epi32
                 (mm_set1_epi32 (PRECISION_ROUNDING * 2 ^ SHIFT_BITS)) res)
                 (PRECISION_BITS + SHIFT_BITS);
          r2 = mm_packs_epi32 r1 r1
      in mm_cvtsi128_si32 (mm_packus_epi16 r2 r2))"

text \<open>
  The loop over \<open>x\<close> (lines 128-206).  \<open>index\<close> and \<open>idx\<close> are set once per row, before
  the loop; the body computes \<open>next_index\<close> and \<open>next_idx\<close> from the following pixel but
  never assigns them to \<open>index\<close> and \<open>idx\<close>, so both stay as they were.  For
  \<open>table_channels = 4\<close> the body stores nothing: that block is commented out in the
  source.

  The 16 bytes loaded at line 130 feed \<open>next_index\<close> and \<open>next_idx\<close> only.  Nothing reads
  these two variables, so no result of the function depends on the load and a compiler
  is free to emit no read for it.  The loop therefore does not fail when this load is
  out of range: the loaded value is an option, and the loop keeps the list of these
  prefetches, each with its byte offset into the row and the value read (\<open>None\<close> when
  the sixteen bytes do not all lie inside the row buffer).
\<close>

type_synonym prefetch = "int \<times> m128i option"

function lut_row ::
  "int \<Rightarrow> int \<Rightarrow> int \<Rightarrow> m128i \<Rightarrow> INT16 list \<Rightarrow> UINT8 list \<Rightarrow> m128i \<Rightarrow> int \<Rightarrow> int \<Rightarrow> nat \<Rightarrow> UINT8 list
     \<Rightarrow> prefetch list \<Rightarrow> error option \<times> UINT8 list \<times> prefetch list" where
  "lut_row table_channels size1D size1D_2D sc table rowIn index idx xs x rowOut reads =
     (if int x < xs then
        (let next_px = load_si128 rowIn (int x * 4 + 4);
             next_index = map_option (lut_index sc) next_px;
             next_idx = map_option (lut_idx table_channels (index_mul size1D size1D_2D)) next_index;
             reads' = reads @ [(int x * 4 + 4, next_px)];
             shift = lut_shift index
         in if table_channels = 3 then
              (case lut3_blend table idx size1D size1D_2D shift of
                 None \<Rightarrow> (Some MemoryFault, rowOut, reads')
               | Some regs \<Rightarrow>
                  (case store_u32 rowOut x (lut3_pack (result regs)) of
                     None \<Rightarrow> (Some MemoryFault, rowOut, reads')
                   | Some rowOut' \<Rightarrow>
                       lut_row table_channels size1D size1D_2D sc table rowIn index idx xs (Suc x) rowOut' reads'))
            else lut_row table_channels size1D size1D_2D sc table rowIn index idx xs (Suc x) rowOut reads')
      else (None, rowOut, reads))"
  by pat_completeness auto
termination
  by (relation "measure (\<lambda>(tc, s1, s12, sc, t, ri, ix, i, xs, x, ro, rd). nat xs - x)") auto

text \<open>The loop over \<open>y\<close> (lines 119-207).  The load of the first pixel of a row (line 123)
  gives \<open>index\<close> and \<open>idx\<close>, which every pixel of the row uses: it has to succeed.  The
  prefetches of row \<open>y\<close> are the \<open>y\<close>-th element of the list returned.\<close>

function lut_rows ::
  "int \<Rightarrow> int \<Rightarrow> int \<Rightarrow> m128i \<Rightarrow> INT16 list \<Rightarrow> UINT8 list list \<Rightarrow> int \<Rightarrow> int \<Rightarrow> nat \<Rightarrow> UINT8 list list
     \<Rightarrow> prefetch list list \<Rightarrow> error option \<times> UINT8 list list \<times> prefetch list list" where
  "lut_rows table_channels size1D size1D_2D sc table rowsIn xs ys y rowsOut reads =
     (if int y < ys then
        (if length rowsIn \<le> y \<or> length rowsOut \<le> y then (Some MemoryFault, rowsOut, reads)
         else
           (let rowIn = rowsIn ! y; rowOut = rowsOut ! y
            in case load_si128 rowIn 0 of
                 None \<Rightarrow> (Some MemoryFault, rowsOut, reads)
               | Some px \<Rightarrow>
                  (let index = lut_index sc px;
                       idx = lut_idx table_channels (index_mul size1D size1D_2D) index
                   in case lut_row table_channels size1D size1D_2D sc table rowIn index idx xs 0 rowOut [] of
                        (Some e, rowOut', rd) \<Rightarrow> (Some e, rowsOut[y := rowOut'], reads @ [rd])
                      | (None, rowOut', rd) \<Rightarrow>
                          lut_rows table_channels size1D size1D_2D sc table rowsIn xs ys (Suc y)
                            (rowsOut[y := rowOut']) (reads @ [rd]))))
      else (None, rowsOut, reads))"
  by pat_completeness auto
termination
  by (relation "measure (\<lambda>(tc, s1, s12, sc, t, ri, xs, ys, y, ro, rd). nat ys - y)") auto

text \<open>
  The function returns a C pointer and mutates \<^verbatim>\<open>imOut\<close> in place.  The model of a call
  returns the error (\<open>None\<close> when \<^verbatim>\<open>imOut\<close> is returned, \<open>Some e\<close> when NULL is), the
  contents of \<^verbatim>\<open>imOut\<close> when the function returns, and the prefetches of every row.
  \<^verbatim>\<open>ImagingSectionEnter\<close> and \<^verbatim>\<open>ImagingSectionLeave\<close> touch no image data and are left
  out.  The input image is only read; the loads of a row never overlap the bytes of that
  row already written, so a call with \<^verbatim>\<open>imOut == imIn\<close> is the call with two equal
  images.
\<close>

definition ImagingColorLUT3D_linear_traced ::
  "imaging \<Rightarrow> imaging \<Rightarrow> int \<Rightarrow> int \<Rightarrow> int \<Rightarrow> int \<Rightarrow> INT16 list
     \<Rightarrow> error option \<times> imaging \<times> prefetch list list" where
  "ImagingColorLUT3D_linear_traced imOut imIn table_channels size1D size2D size3D table =
     (let size1D_2D = size1D * size2D;
          sc = scale size1D size2D size3D
      in if table_channels < 3 \<or> table_channels > 4 then (Some ValueError, imOut, [])
         else if type imIn \<noteq> IMAGING_TYPE_UINT8 \<or> type imOut \<noteq> IMAGING_TYPE_UINT8 \<or>
                 bands imIn < 3 \<or> bands imOut < table_channels then (Some ModeError, imOut, [])
         else if bands imOut > table_channels \<and> bands imOut > bands imIn then (Some ModeError, imOut, [])
         else (case lut_rows table_channels size1D size1D_2D sc table (image imIn)
                      (xsize imOut) (ysize imOut) 0 (image imOut) [] of
                 (e, rows, reads) \<Rightarrow> (e, imOut\<lparr>image := rows\<rparr>, reads)))"

text \<open>What the caller of the function observes: the error and the output image.\<close>

definition ImagingColorLUT3D_linear ::
  "imaging \<Rightarrow> imaging \<Rightarrow> int \<Rightarrow> int \<Rightarrow> int \<Rightarrow> int \<Rightarrow> INT16 list \<Rightarrow> error option \<times> imaging" where
  "ImagingColorLUT3D_linear imOut imIn table_channels size1D size2D size3D table =
     (case ImagingColorLUT3D_linear_traced imOut imIn table_channels size1D size2D size3D table of
        (e, im, reads) \<Rightarrow> (e, im))"

section \<open>Lane views, integer views and reference functions\<close>

text \<open>One axis blend over the integers: \<open>(a * w0 + b * w1) >> SHIFT_BITS\<close> with the weights
  \<open>w1 = f\<close> and \<open>w0 = 2 ^ SHIFT_BITS - 1 - f\<close> of the vector code.\<close>

definition lerp15 :: "int \<Rightarrow> int \<Rightarrow> int \<Rightarrow> int" where
  "lerp15 a b f = (a * (2 ^ 15 - 1 - f) + b * f) div 2 ^ 15"

text \<open>The 16-bit result of one blend in a lane: \<^verbatim>\<open>_mm_madd_epi16\<close> of the operand pair
  \<open>(a, b)\<close> with the packed weights \<open>sh\<close>, shifted right by \<open>SHIFT_BITS\<close>.\<close>

definition blend16 :: "INT16 \<Rightarrow> INT16 \<Rightarrow> UINT32 \<Rightarrow> INT16" where
  "blend16 a b sh = lo16 (signed_drop_bit SHIFT_BITS (madd16 (cat16 a b) sh))"

text \<open>The first blend of channel \<open>c\<close> for the corner pair stored at \<open>off\<close> and \<open>off + 3\<close>.\<close>

definition corner16 :: "INT16 list \<Rightarrow> nat \<Rightarrow> nat \<Rightarrow> UINT32 \<Rightarrow> INT16" where
  "corner16 table off c sh = blend16 (table ! (off + c)) (table ! (off + 3 + c)) sh"

text \<open>One lane of \<open>lut_frac\<close>.\<close>

definition frac_lane :: "UINT32 \<Rightarrow> UINT32" where
  "frac_lane x = drop_bit (SCALE_BITS - SHIFT_BITS) (word_of_int SCALE_MASK AND x)"

text \<open>One lane of \<open>lut_shift\<close>.\<close>

definition shift_lane :: "UINT32 \<Rightarrow> UINT32" where
  "shift_lane x = (word_of_int (2 ^ SHIFT_BITS - 1) - frac_lane x) OR push_bit 16 (frac_lane x)"

text \<open>One byte of \<open>lut3_pack\<close>: rounding, shift and the two saturations of a result lane.\<close>

definition pack_lane :: "UINT32 \<Rightarrow> UINT8" where
  "pack_lane r = satu8 (sat16 (signed_drop_bit (PRECISION_BITS + SHIFT_BITS)
                   (word_of_int (PRECISION_ROUNDING * 2 ^ SHIFT_BITS) + r)))"

text \<open>The fixed-point grid coordinate of a channel value, as an integer.\<close>

definition grid_coord :: "int \<Rightarrow> int \<Rightarrow> int" where
  "grid_coord sz v = lut_scale sz * v"

text \<open>One lane of \<open>lut_index\<close>: the scale times the zero-extended channel byte.\<close>

definition coord_lane :: "int \<Rightarrow> UINT8 \<Rightarrow> UINT32" where
  "coord_lane sz v = word_of_int (lut_scale sz) * ucast v"

text \<open>The prefetches of the iterations \<open>x, ..., n - 1\<close> of the loop over \<open>x\<close> on the row \<open>ri\<close>.\<close>

definition row_prefetches :: "UINT8 list \<Rightarrow> nat \<Rightarrow> nat \<Rightarrow> prefetch list" where
  "row_prefetches ri x n = map (\<lambda>k. (int k * 4 + 4, load_si128 ri (int k * 4 + 4))) [x..<n]"

text \<open>The body of the loop over \<open>y\<close> for one row (lines 120-206): the load of the first
  pixel, \<open>index\<close>, \<open>idx\<close>, and the loop over \<open>x\<close>.\<close>

definition lut_line ::
  "int \<Rightarrow> int \<Rightarrow> int \<Rightarrow> m128i \<Rightarrow> INT16 list \<Rightarrow> UINT8 list \<Rightarrow> int \<Rightarrow> UINT8 list
     \<Rightarrow> error option \<times> UINT8 list \<times> prefetch list" where
  "lut_line table_channels size1D size1D_2D sc table rowIn xs rowOut =
     (case load_si128 rowIn 0 of
        None \<Rightarrow> (Some MemoryFault, rowOut, [])
      | Some px \<Rightarrow>
          lut_row table_channels size1D size1D_2D sc table rowIn (lut_index sc px)
            (lut_idx table_channels (index_mul size1D size1D_2D) (lut_index sc px)) xs 0 rowOut [])"

text \<open>
  The scalar formula of three-channel interpolation: the three nested applications
  of \<open>interpolate3\<close> along axis 0, axis 1 and axis 2, followed by \<open>clip8\<close>, with the
  table offsets of the vector code.  \<open>table3 table off\<close> is the array \<^verbatim>\<open>&table[off]\<close>.
\<close>

definition table3 :: "INT16 list \<Rightarrow> int \<Rightarrow> INT16 \<times> INT16 \<times> INT16" where
  "table3 table off = (table ! nat off, table ! nat (off + 1), table ! nat (off + 2))"

definition scalar_lut3 :: "INT16 list \<Rightarrow> int \<Rightarrow> int \<Rightarrow> int \<Rightarrow> INT16 \<Rightarrow> INT16 \<Rightarrow> INT16 \<Rightarrow> UINT8 list" where
  "scalar_lut3 table idx size1D size1D_2D shift1D shift2D shift3D =
     (let leftleft = interpolate3 (table3 table (idx + 0)) (table3 table (idx + 0 + 3)) shift1D;
          leftright = interpolate3 (table3 table (idx + size1D * 3))
                        (table3 table (idx + size1D * 3 + 3)) shift1D;
          left = interpolate3 leftleft leftright shift2D;
          rightleft = interpolate3 (table3 table (idx + size1D_2D * 3))
                        (table3 table (idx + size1D_2D * 3 + 3)) shift1D;
          rightright = interpolate3 (table3 table (idx + size1D_2D * 3 + size1D * 3))
                        (table3 table (idx + size1D_2D * 3 + size1D * 3 + 3)) shift1D;
          right = interpolate3 rightleft rightright shift2D
      in case interpolate3 left right shift3D of
           (r0, r1, r2) \<Rightarrow> [clip8 (sint r0), clip8 (sint r1), clip8 (sint r2)])"

text \<open>
  The same formula with the complementary weight \<open>2 ^ SHIFT_BITS - 1 - shift\<close> in place
  of \<open>2 ^ SHIFT_BITS - shift\<close>.
\<close>

definition interpolate1_biased :: "INT16 \<Rightarrow> INT16 \<Rightarrow> INT16 \<Rightarrow> INT16" where
  "interpolate1_biased a b shift =
     word_of_int ((sint a * (2 ^ SHIFT_BITS - 1 - sint shift) + sint b * sint shift) div 2 ^ SHIFT_BITS)"

fun interpolate3_biased :: "INT16 \<times> INT16 \<times> INT16 \<Rightarrow> INT16 \<times> INT16 \<times> INT16 \<Rightarrow> INT16 \<Rightarrow> INT16 \<times> INT16 \<times> INT16" where
  "interpolate3_biased (a0, a1, a2) (b0, b1, b2) shift =
     (interpolate1_biased a0 b0 shift, interpolate1_biased a1 b1 shift, interpolate1_biased a2 b2 shift)"

definition scalar_lut3_biased :: "INT16 list \<Rightarrow> int \<Rightarrow> int \<Rightarrow> int \<Rightarrow> INT16 \<Rightarrow> INT16 \<Rightarrow> INT16 \<Rightarrow> UINT8 list" where
  "scalar_lut3_biased table idx size1D size1D_2D shift1D shift2D shift3D =
     (let leftleft = interpolate3_biased (table3 table (idx + 0)) (table3 table (idx + 0 + 3)) shift1D;
          leftright = interpolate3_biased (table3 table (idx + size1D * 3))
                        (table3 table (idx + size1D * 3 + 3)) shift1D;
          left = interpolate3_biased leftleft leftright shift2D;
          rightleft = interpolate3_biased (table3 table (idx + size1D_2D * 3))
                        (table3 table (idx + size1D_2D * 3 + 3)) shift1D;
          rightright = interpolate3_biased (table3 table (idx + size1D_2D * 3 + size1D * 3))
                        (table3 table (idx + size1D_2D * 3 + size1D * 3 + 3)) shift1D;
          right = interpolate3_biased rightleft rightright shift2D
      in case interpolate3_biased left right shift3D of
           (r0, r1, r2) \<Rightarrow> [clip8 (sint r0), clip8 (sint r1), clip8 (sint r2)])"

text \<open>The integer grid index and the fractional weight of a channel value, and the grid
  node of a pixel (the base corner of its cell), as integers.\<close>

definition grid_index :: "int \<Rightarrow> int \<Rightarrow> int" where
  "grid_index sz v = grid_coord sz v div 2 ^ SCALE_BITS"

definition grid_frac :: "int \<Rightarrow> int \<Rightarrow> int" where
  "grid_frac sz v = (grid_coord sz v mod 2 ^ SCALE_BITS) div 2 ^ (SCALE_BITS - SHIFT_BITS)"

definition grid_node :: "int \<Rightarrow> int \<Rightarrow> int \<Rightarrow> UINT8 \<Rightarrow> UINT8 \<Rightarrow> UINT8 \<Rightarrow> int" where
  "grid_node size1D size2D size3D r g b =
     table_index3D (grid_index size1D (uint r)) (grid_index size2D (uint g)) (grid_index size3D (uint b))
       size1D (size1D * size2D)"

text \<open>The register \<open>index\<close> of a pixel with the channel bytes \<open>r\<close>, \<open>g\<close>, \<open>b\<close>, and the value
  stored for it by the three-channel path (\<open>None\<close> when a table load is out of range).\<close>

definition pixel_index :: "int \<Rightarrow> int \<Rightarrow> int \<Rightarrow> UINT8 \<Rightarrow> UINT8 \<Rightarrow> UINT8 \<Rightarrow> m128i" where
  "pixel_index size1D size2D size3D r g b =
     M128 (coord_lane size1D r) (coord_lane size2D g) (coord_lane size3D b) 0"

definition lut3_value :: "int \<Rightarrow> int \<Rightarrow> int \<Rightarrow> INT16 list \<Rightarrow> UINT8 \<Rightarrow> UINT8 \<Rightarrow> UINT8 \<Rightarrow> UINT32 option" where
  "lut3_value size1D size2D size3D table r g b =
     (let index = pixel_index size1D size2D size3D r g b
      in map_option (\<lambda>regs. lut3_pack (result regs))
           (lut3_blend table (lut_idx 3 (index_mul size1D (size1D * size2D)) index)
              size1D (size1D * size2D) (lut_shift index)))"

text \<open>
  The checks of lines 100-116 all pass.
\<close>

definition lut_checks_pass :: "imaging \<Rightarrow> imaging \<Rightarrow> int \<Rightarrow> bool" where
  "lut_checks_pass imOut imIn table_channels \<longleftrightarrow>
     3 \<le> table_channels \<and> table_channels \<le> 4 \<and>
     type imIn = IMAGING_TYPE_UINT8 \<and> type imOut = IMAGING_TYPE_UINT8 \<and>
     3 \<le> bands imIn \<and> table_channels \<le> bands imOut \<and>
     (bands imOut \<le> table_channels \<or> bands imOut \<le> bands imIn)"

text \<open>
  Buffers that cover every access of the transform: both images have a row for every
  \<open>y\<close> below the height of \<^verbatim>\<open>imOut\<close>, every such input row is readable for 16 bytes
  past its \<open>4 * xsize\<close> pixel bytes, every such output row holds its pixel bytes, and the
  table is readable for two elements past its \<open>3 * size1D * size2D * size3D\<close> values.
\<close>

definition buffers_ok :: "imaging \<Rightarrow> imaging \<Rightarrow> int \<Rightarrow> int \<Rightarrow> int \<Rightarrow> INT16 list \<Rightarrow> bool" where
  "buffers_ok imOut imIn size1D size2D size3D table \<longleftrightarrow>
     nat (ysize imOut) \<le> length (image imIn) \<and> nat (ysize imOut) \<le> length (image imOut) \<and>
     list_all (\<lambda>r. 4 * nat (xsize imOut) + 16 \<le> length r) (take (nat (ysize imOut)) (image imIn)) \<and>
     list_all (\<lambda>r. 4 * nat (xsize imOut) \<le> length r) (take (nat (ysize imOut)) (image imOut)) \<and>
     3 * nat (size1D * size2D * size3D) + 2 \<le> length table"

text \<open>Lines 135-185 as one function: the 32-bit value stored into \<^verbatim>\<open>rowOut[x]\<close>.\<close>

definition lut3_pixel :: "INT16 list \<Rightarrow> int \<Rightarrow> int \<Rightarrow> int \<Rightarrow> m128i \<Rightarrow> UINT32 option" where
  "lut3_pixel table idx size1D size1D_2D index =
     map_option (\<lambda>regs. lut3_pack (result regs)) (lut3_blend table idx size1D size1D_2D (lut_shift index))"

text \<open>A fractional weight of a value on a node, and the operand of a blend that such a
  weight selects: the first for the weight 0, the second for a weight next to
  \<open>2 ^ SHIFT_BITS\<close>.\<close>

definition node_frac :: "int \<Rightarrow> bool" where
  "node_frac f \<longleftrightarrow> f = 0 \<or> (32736 \<le> f \<and> f \<le> 32767)"

definition node_operand :: "int \<Rightarrow> 'a \<Rightarrow> 'a \<Rightarrow> 'a" where
  "node_operand f a b = (if f = 0 then a else b)"

text \<open>A 4x2x2 three-channel table with distinct values: node \<open>n\<close> holds
  \<open>(1000 * n, 1000 * n + 1, 1000 * n + 2)\<close>; two more elements follow the grid.\<close>

definition ramp_table_4 :: "INT16 list" where
  "ramp_table_4 =
     [0, 1, 2, 1000, 1001, 1002, 2000, 2001, 2002, 3000, 3001, 3002,
      4000, 4001, 4002, 5000, 5001, 5002, 6000, 6001, 6002, 7000, 7001, 7002,
      8000, 8001, 8002, 9000, 9001, 9002, 10000, 10001, 10002, 11000, 11001, 11002,
      12000, 12001, 12002, 13000, 13001, 13002, 14000, 14001, 14002, 15000, 15001, 15002,
      0, 0]"

text \<open>The 2x2x2 three-channel identity table: node \<open>(i, j, k)\<close> holds
  \<open>(16320 * i, 16320 * j, 16320 * k)\<close>; two more elements follow the grid.\<close>

definition identity_table_2 :: "INT16 list" where
  "identity_table_2 =
     [0, 0, 0,  16320, 0, 0,  0, 16320, 0,  16320, 16320, 0,
      0, 0, 16320,  16320, 0, 16320,  0, 16320, 16320,  16320, 16320, 16320,  0, 0]"

section \<open>Lemmas\<close>

lemma lo16_cat16: "lo16 (cat16 l h) = l"
  unfolding lo16_def cat16_def
  by (rule bit_word_eqI) (auto simp: bit_simps dest: bit_imp_le_length)

lemma hi16_cat16: "hi16 (cat16 l h) = h"
  unfolding hi16_def cat16_def
  by (rule bit_word_eqI) (auto simp: bit_simps dest: bit_imp_le_length)

lemma madd16_cat16:
  "madd16 (cat16 a b) (cat16 w0 w1) = word_of_int (sint a * sint w0 + sint b * sint w1)"
  by (simp only: madd16_def lo16_cat16 hi16_cat16 of_int_add)

lemma lo16_sint: "lo16 w = word_of_int (sint w)"
  unfolding lo16_def
  by (rule bit_word_eqI) (auto simp: bit_simps)

lemma wsum_bounds:
  fixes a b f lo hi :: int
  assumes "lo \<le> a" "a \<le> hi" "lo \<le> b" "b \<le> hi" "0 \<le> f" "f \<le> 32767"
  shows "lo * 32767 \<le> a * (32767 - f) + b * f" and "a * (32767 - f) + b * f \<le> hi * 32767"
proof -
  have w0: "0 \<le> 32767 - f" using assms by simp
  have "lo * (32767 - f) \<le> a * (32767 - f)" using assms(1) w0 by (rule mult_right_mono)
  moreover have "lo * f \<le> b * f" using assms(3,5) by (rule mult_right_mono)
  moreover have "lo * (32767 - f) + lo * f = lo * 32767" by (simp add: algebra_simps)
  ultimately show "lo * 32767 \<le> a * (32767 - f) + b * f" by linarith
  have "a * (32767 - f) \<le> hi * (32767 - f)" using assms(2) w0 by (rule mult_right_mono)
  moreover have "b * f \<le> hi * f" using assms(4,5) by (rule mult_right_mono)
  moreover have "hi * (32767 - f) + hi * f = hi * 32767" by (simp add: algebra_simps)
  ultimately show "a * (32767 - f) + b * f \<le> hi * 32767" by linarith
qed

lemma lerp15_bounds:
  assumes "lo \<le> a" "a \<le> hi" "lo \<le> b" "b \<le> hi" "0 \<le> f" "f \<le> 32767"
  shows "(lo * 32767) div 32768 \<le> lerp15 a b f" and "lerp15 a b f \<le> (hi * 32767) div 32768"
  using wsum_bounds[OF assms] unfolding lerp15_def
  by (simp_all add: zdiv_mono1)

lemma sint16_range: "- 32768 \<le> sint (w :: 16 word) \<and> sint w \<le> 32767"
  using sint_ge[of w] sint_lt[of w] by simp

lemma sint32_of_int: "- 2147483648 \<le> k \<Longrightarrow> k \<le> 2147483647 \<Longrightarrow> sint (word_of_int k :: 32 word) = k"
  by (simp add: sint_sbintrunc' signed_take_bit_int_eq_self)

lemma sint16_of_int: "- 32768 \<le> k \<Longrightarrow> k \<le> 32767 \<Longrightarrow> sint (word_of_int k :: 16 word) = k"
  by (simp add: sint_sbintrunc' signed_take_bit_int_eq_self)

lemma blend_lane:
  fixes a b w0 w1 :: "16 word"
  assumes w: "sint w0 = 32767 - f" "sint w1 = f" and f: "0 \<le> f" "f \<le> 32767"
  shows "sint (madd16 (cat16 a b) (cat16 w0 w1)) = sint a * (32767 - f) + sint b * f"
    and "sint (lo16 (signed_drop_bit 15 (madd16 (cat16 a b) (cat16 w0 w1)))) = lerp15 (sint a) (sint b) f"
proof -
  let ?S = "sint a * (32767 - f) + sint b * f"
  have r: "- 32768 \<le> sint a" "sint a \<le> 32767" "- 32768 \<le> sint b" "sint b \<le> 32767"
    using sint16_range[of a] sint16_range[of b] by simp_all
  have S: "- 32768 * 32767 \<le> ?S" "?S \<le> 32767 * 32767"
    using wsum_bounds[OF r f] by simp_all
  have m: "madd16 (cat16 a b) (cat16 w0 w1) = word_of_int ?S"
    by (simp only: madd16_cat16 w)
  show s: "sint (madd16 (cat16 a b) (cat16 w0 w1)) = ?S"
    unfolding m using S by (intro sint32_of_int) linarith+
  have L: "- 32768 \<le> lerp15 (sint a) (sint b) f" "lerp15 (sint a) (sint b) f \<le> 32767"
    using lerp15_bounds[OF r f] by simp_all
  have "sint (signed_drop_bit 15 (madd16 (cat16 a b) (cat16 w0 w1))) = lerp15 (sint a) (sint b) f"
    by (simp add: sint_signed_drop_bit_eq s lerp15_def drop_bit_eq_div)
  then have "lo16 (signed_drop_bit 15 (madd16 (cat16 a b) (cat16 w0 w1))) = word_of_int (lerp15 (sint a) (sint b) f)"
    by (simp only: lo16_sint)
  then show "sint (lo16 (signed_drop_bit 15 (madd16 (cat16 a b) (cat16 w0 w1)))) = lerp15 (sint a) (sint b) f"
    using L by (simp only: sint16_of_int)
qed

lemma cat16_split: "cat16 (lo16 w) (hi16 w) = w"
  unfolding lo16_def hi16_def cat16_def
  by (rule bit_word_eqI) (auto simp: bit_simps)

lemma lo8_cat8: "lo8 (cat8 l h) = l"
  unfolding lo8_def cat8_def
  by (rule bit_word_eqI) (auto simp: bit_simps dest: bit_imp_le_length)

lemma hi8_cat8: "hi8 (cat8 l h) = h"
  unfolding hi8_def cat8_def
  by (rule bit_word_eqI) (auto simp: bit_simps dest: bit_imp_le_length)

lemma cat8_split: "cat8 (lo8 w) (hi8 w) = w"
  unfolding lo8_def hi8_def cat8_def
  by (rule bit_word_eqI) (auto simp: bit_simps)

lemma and_left_mask: "w AND 0x0000ffff = cat16 (lo16 w) 0"
proof -
  have eq: "(0xffff :: 32 word) = mask 16" by (simp add: mask_eq_exp_minus_1)
  show ?thesis unfolding lo16_def cat16_def eq
    by (rule bit_word_eqI) (auto simp: bit_simps)
qed

lemma and_right_mask: "w AND 0xffff0000 = cat16 0 (hi16 w)"
proof -
  have eq: "(0xffff0000 :: 32 word) = push_bit 16 (mask 16)" by (simp add: mask_eq_exp_minus_1)
  show ?thesis
    unfolding hi16_def cat16_def eq
    by (rule bit_word_eqI) (auto simp: bit_simps)
qed

lemma or_cat16: "cat16 a 0 OR cat16 0 b = cat16 a b"
  unfolding cat16_def by simp

lemma hi16_push_gen: "1 \<le> n \<Longrightarrow> n \<le> 16 \<Longrightarrow> hi16 (push_bit n m) = lo16 (signed_drop_bit (16 - n) m)"
  unfolding hi16_def lo16_def
  by (rule bit_word_eqI) (auto simp: bit_simps)

lemma blend_left_lane:
  "signed_drop_bit SHIFT_BITS (madd16 (cat16 a b) sh) AND 0x0000ffff = cat16 (blend16 a b sh) 0"
  by (simp only: and_left_mask blend16_def)

lemma blend_right_lane:
  "push_bit (16 - SHIFT_BITS) (madd16 (cat16 a b) sh) AND 0xffff0000 = cat16 0 (blend16 a b sh)"
proof -
  have "hi16 (push_bit (16 - SHIFT_BITS) (madd16 (cat16 a b) sh)) = blend16 a b sh"
    unfolding blend16_def by (subst hi16_push_gen) (simp_all add: SHIFT_BITS_def)
  then show ?thesis by (simp only: and_right_mask)
qed

lemma cat_zero: "cat8 0 0 = 0" "cat16 0 0 = 0"
  by (simp_all add: cat8_def cat16_def)

lemma bytes32_word32_of_bytes:
  "bytes32 (word32_of_bytes [b0, b1, b2, b3]) = [b0, b1, b2, b3]"
  by (simp add: bytes32_def word32_of_bytes_def lo16_cat16 hi16_cat16 lo8_cat8 hi8_cat8)

lemma m128i_bytes_of_bytes:
  "m128i_bytes (m128i_of_bytes [b0, b1, b2, b3, b4, b5, b6, b7, b8, b9, b10, b11, b12, b13, b14, b15]) =
     [b0, b1, b2, b3, b4, b5, b6, b7, b8, b9, b10, b11, b12, b13, b14, b15]"
  by (simp add: m128i_of_bytes_def bytes32_word32_of_bytes)

lemma shuffle_source_bytes:
  "m128i_bytes shuffle_source = [0, 1, 6, 7, 2, 3, 8, 9, 4, 5, 10, 11, - 1, - 1, - 1, - 1]"
  by (simp add: shuffle_source_def mm_set_epi8_def m128i_bytes_of_bytes)

lemma gather3:
  "mm_shuffle_epi8 (M128 (cat16 a0 a1) (cat16 a2 a3) (cat16 a4 a5) (cat16 a6 a7)) shuffle_source =
   M128 (cat16 a0 a3) (cat16 a1 a4) (cat16 a2 a5) (cat16 0 0)"
  unfolding mm_shuffle_epi8_def shuffle_source_bytes
  by (simp add: m128i_of_bytes_def word32_of_bytes_def bytes32_def lo16_cat16 hi16_cat16 cat8_split cat_zero)

lemma mm_loadu_si128_Some:
  assumes "0 \<le> off" "nat off + 8 \<le> length table"
  shows "mm_loadu_si128 table off =
     Some (M128 (cat16 (table ! nat off) (table ! (nat off + 1)))
                (cat16 (table ! (nat off + 2)) (table ! (nat off + 3)))
                (cat16 (table ! (nat off + 4)) (table ! (nat off + 5)))
                (cat16 (table ! (nat off + 6)) (table ! (nat off + 7))))"
  using assms by (simp add: mm_loadu_si128_def load_range_def)

lemma mm_loadu_si128_eq_None:
  "mm_loadu_si128 table off = None \<longleftrightarrow> \<not> (0 \<le> off \<and> nat off + 8 \<le> length table)"
  by (simp add: mm_loadu_si128_def load_range_def)

lemma shuffle_imm:
  "mm_shuffle_epi32 (M128 a b c d) 0x00 = M128 a a a a"
  "mm_shuffle_epi32 (M128 a b c d) 0x55 = M128 b b b b"
  "mm_shuffle_epi32 (M128 a b c d) 0xaa = M128 c c c c"
  by (simp_all add: mm_shuffle_epi32_def lane_def)

lemma masks: "left_mask = M128 0xffff 0xffff 0xffff 0xffff" "right_mask = M128 0xffff0000 0xffff0000 0xffff0000 0xffff0000"
  by (simp_all add: left_mask_def right_mask_def mm_set1_epi32_def)

lemma blend_left_reg:
  "mm_and_si128 (mm_srai_epi32 (mm_madd_epi16 (M128 (cat16 a0 b0) (cat16 a1 b1) (cat16 a2 b2) (cat16 a3 b3)) (M128 sh sh sh sh)) SHIFT_BITS) left_mask
   = M128 (cat16 (blend16 a0 b0 sh) 0) (cat16 (blend16 a1 b1 sh) 0) (cat16 (blend16 a2 b2 sh) 0) (cat16 (blend16 a3 b3 sh) 0)"
  by (simp add: mm_and_si128_def mm_srai_epi32_def mm_madd_epi16_def masks blend_left_lane)

lemma blend_right_reg:
  "mm_and_si128 (mm_slli_epi32 (mm_madd_epi16 (M128 (cat16 a0 b0) (cat16 a1 b1) (cat16 a2 b2) (cat16 a3 b3)) (M128 sh sh sh sh)) (16 - SHIFT_BITS)) right_mask
   = M128 (cat16 0 (blend16 a0 b0 sh)) (cat16 0 (blend16 a1 b1 sh)) (cat16 0 (blend16 a2 b2 sh)) (cat16 0 (blend16 a3 b3 sh))"
  by (simp add: mm_and_si128_def mm_slli_epi32_def mm_madd_epi16_def masks blend_right_lane)

lemma or_reg:
  "mm_or_si128 (M128 (cat16 a0 0) (cat16 a1 0) (cat16 a2 0) (cat16 a3 0)) (M128 (cat16 0 b0) (cat16 0 b1) (cat16 0 b2) (cat16 0 b3))
   = M128 (cat16 a0 b0) (cat16 a1 b1) (cat16 a2 b2) (cat16 a3 b3)"
  by (simp add: mm_or_si128_def or_cat16)

lemma madd_reg:
  "mm_madd_epi16 (M128 a0 a1 a2 a3) (M128 sh sh sh sh) = M128 (madd16 a0 sh) (madd16 a1 sh) (madd16 a2 sh) (madd16 a3 sh)"
  by (simp add: mm_madd_epi16_def)

lemma lut3_blend_lanes:
  fixes sh1 sh2 sh3 sh4 :: UINT32 and idx size1D size1D_2D :: int and table :: "INT16 list"
  defines "o0 \<equiv> nat (idx + 0)" and "o1 \<equiv> nat (idx + size1D * 3)" and "o2 \<equiv> nat (idx + size1D_2D * 3)"
    and "o3 \<equiv> nat (idx + size1D_2D * 3 + size1D * 3)"
  assumes nn: "0 \<le> idx + 0" "0 \<le> idx + size1D * 3" "0 \<le> idx + size1D_2D * 3"
      "0 \<le> idx + size1D_2D * 3 + size1D * 3"
    and ln: "o0 + 8 \<le> length table" "o1 + 8 \<le> length table" "o2 + 8 \<le> length table"
      "o3 + 8 \<le> length table"
  defines "LL \<equiv> \<lambda>c. corner16 table o0 c sh1" and "LR \<equiv> \<lambda>c. corner16 table o1 c sh1"
    and "RL \<equiv> \<lambda>c. corner16 table o2 c sh1" and "RR \<equiv> \<lambda>c. corner16 table o3 c sh1"
  defines "L \<equiv> \<lambda>c. blend16 (LL c) (LR c) sh2" and "R \<equiv> \<lambda>c. blend16 (RL c) (RR c) sh2"
  defines "Z1 \<equiv> blend16 0 0 sh1"
  defines "Z2 \<equiv> blend16 Z1 Z1 sh2"
  shows "lut3_blend table idx size1D size1D_2D (M128 sh1 sh2 sh3 sh4) = Some
    \<lparr> leftleft = M128 (cat16 (LL 0) 0) (cat16 (LL 1) 0) (cat16 (LL 2) 0) (cat16 Z1 0),
      leftright = M128 (cat16 0 (LR 0)) (cat16 0 (LR 1)) (cat16 0 (LR 2)) (cat16 0 Z1),
      rightleft = M128 (cat16 (RL 0) 0) (cat16 (RL 1) 0) (cat16 (RL 2) 0) (cat16 Z1 0),
      rightright = M128 (cat16 0 (RR 0)) (cat16 0 (RR 1)) (cat16 0 (RR 2)) (cat16 0 Z1),
      left = M128 (cat16 (L 0) 0) (cat16 (L 1) 0) (cat16 (L 2) 0) (cat16 Z2 0),
      right = M128 (cat16 0 (R 0)) (cat16 0 (R 1)) (cat16 0 (R 2)) (cat16 0 Z2),
      result = M128 (madd16 (cat16 (L 0) (R 0)) sh3) (madd16 (cat16 (L 1) (R 1)) sh3)
                    (madd16 (cat16 (L 2) (R 2)) sh3) (madd16 (cat16 Z2 Z2) sh3) \<rparr>"
proof -
  have l0: "mm_loadu_si128 table (idx + 0) = Some (M128 (cat16 (table ! o0) (table ! (o0 + 1)))
                (cat16 (table ! (o0 + 2)) (table ! (o0 + 3)))
                (cat16 (table ! (o0 + 4)) (table ! (o0 + 5)))
                (cat16 (table ! (o0 + 6)) (table ! (o0 + 7))))"
    using mm_loadu_si128_Some[OF nn(1)] ln(1) unfolding o0_def by simp
  have l1: "mm_loadu_si128 table (idx + size1D * 3) = Some (M128 (cat16 (table ! o1) (table ! (o1 + 1)))
                (cat16 (table ! (o1 + 2)) (table ! (o1 + 3)))
                (cat16 (table ! (o1 + 4)) (table ! (o1 + 5)))
                (cat16 (table ! (o1 + 6)) (table ! (o1 + 7))))"
    using mm_loadu_si128_Some[OF nn(2)] ln(2) unfolding o1_def by simp
  have l2: "mm_loadu_si128 table (idx + size1D_2D * 3) = Some (M128 (cat16 (table ! o2) (table ! (o2 + 1)))
                (cat16 (table ! (o2 + 2)) (table ! (o2 + 3)))
                (cat16 (table ! (o2 + 4)) (table ! (o2 + 5)))
                (cat16 (table ! (o2 + 6)) (table ! (o2 + 7))))"
    using mm_loadu_si128_Some[OF nn(3)] ln(3) unfolding o2_def by simp
  have l3: "mm_loadu_si128 table (idx + size1D_2D * 3 + size1D * 3) = Some (M128 (cat16 (table ! o3) (table ! (o3 + 1)))
                (cat16 (table ! (o3 + 2)) (table ! (o3 + 3)))
                (cat16 (table ! (o3 + 4)) (table ! (o3 + 5)))
                (cat16 (table ! (o3 + 6)) (table ! (o3 + 7))))"
    using mm_loadu_si128_Some[OF nn(4)] ln(4) unfolding o3_def by simp
  have c: "\<And>off. blend16 (table ! off) (table ! (off + 3)) sh1 = corner16 table off 0 sh1"
      "\<And>off. blend16 (table ! (off + 1)) (table ! (off + 4)) sh1 = corner16 table off 1 sh1"
      "\<And>off. blend16 (table ! (off + 2)) (table ! (off + 5)) sh1 = corner16 table off 2 sh1"
    by (simp_all add: corner16_def add.commute)
  show ?thesis
    unfolding lut3_blend_def Let_def shuffle_imm l0 l1 l2 l3 option.case gather3
      blend_left_reg blend_right_reg or_reg c
    unfolding madd_reg LL_def LR_def RL_def RR_def L_def R_def Z1_def Z2_def
    by (rule refl)
qed

lemma lut3_blend_Some_D:
  assumes "lut3_blend table idx size1D size1D_2D shift = Some regs"
  shows "0 \<le> idx + 0 \<and> nat (idx + 0) + 8 \<le> length table"
    and "0 \<le> idx + size1D * 3 \<and> nat (idx + size1D * 3) + 8 \<le> length table"
    and "0 \<le> idx + size1D_2D * 3 \<and> nat (idx + size1D_2D * 3) + 8 \<le> length table"
    and "0 \<le> idx + size1D_2D * 3 + size1D * 3 \<and> nat (idx + size1D_2D * 3 + size1D * 3) + 8 \<le> length table"
proof -
  from assms have n: "mm_loadu_si128 table (idx + 0) \<noteq> None"
      "mm_loadu_si128 table (idx + size1D * 3) \<noteq> None"
      "mm_loadu_si128 table (idx + size1D_2D * 3) \<noteq> None"
      "mm_loadu_si128 table (idx + size1D_2D * 3 + size1D * 3) \<noteq> None"
    unfolding lut3_blend_def Let_def by (auto split: option.splits)
  show "0 \<le> idx + 0 \<and> nat (idx + 0) + 8 \<le> length table"
    using n(1) unfolding mm_loadu_si128_eq_None by blast
  show "0 \<le> idx + size1D * 3 \<and> nat (idx + size1D * 3) + 8 \<le> length table"
    using n(2) unfolding mm_loadu_si128_eq_None by blast
  show "0 \<le> idx + size1D_2D * 3 \<and> nat (idx + size1D_2D * 3) + 8 \<le> length table"
    using n(3) unfolding mm_loadu_si128_eq_None by blast
  show "0 \<le> idx + size1D_2D * 3 + size1D * 3 \<and> nat (idx + size1D_2D * 3 + size1D * 3) + 8 \<le> length table"
    using n(4) unfolding mm_loadu_si128_eq_None by blast
qed

lemma lut3_blend_eq_None:
  "lut3_blend table idx size1D size1D_2D shift = None \<longleftrightarrow>
     mm_loadu_si128 table (idx + 0) = None \<or> mm_loadu_si128 table (idx + size1D * 3) = None \<or>
     mm_loadu_si128 table (idx + size1D_2D * 3) = None \<or>
     mm_loadu_si128 table (idx + size1D_2D * 3 + size1D * 3) = None"
  unfolding lut3_blend_def Let_def by (auto split: option.splits)

lemma lut_frac_lanes:
  "lut_frac (M128 x0 x1 x2 x3) = M128 (frac_lane x0) (frac_lane x1) (frac_lane x2) (frac_lane x3)"
  by (simp add: lut_frac_def frac_lane_def mm_srli_epi32_def mm_and_si128_def scale_mask_def mm_set1_epi32_def)

lemma lut_shift_lanes:
  "lut_shift (M128 x0 x1 x2 x3) = M128 (shift_lane x0) (shift_lane x1) (shift_lane x2) (shift_lane x3)"
  by (simp add: lut_shift_def lut_frac_lanes shift_lane_def mm_or_si128_def mm_sub_epi32_def
      mm_slli_epi32_def mm_set1_epi32_def Let_def)

lemma uint_frac_lane: "uint (frac_lane x) = (uint x mod 2 ^ 18) div 8"
proof -
  have m: "(word_of_int SCALE_MASK :: 32 word) = mask 18"
    by (simp add: SCALE_MASK_def SCALE_BITS_def mask_eq_exp_minus_1)
  have "uint (frac_lane x) = uint (drop_bit 3 (take_bit 18 x))"
    unfolding frac_lane_def m by (simp add: SCALE_BITS_def SHIFT_BITS_def and.commute take_bit_eq_mask)
  also have "\<dots> = (uint x mod 2 ^ 18) div 8"
    by (simp add: unsigned_drop_bit_eq unsigned_take_bit_eq drop_bit_eq_div take_bit_eq_mod uint_div uint_mod)
  finally show ?thesis .
qed

lemma frac_lane_range: "0 \<le> uint (frac_lane x)" "uint (frac_lane x) \<le> 32767"
proof -
  have "uint x mod 2 ^ 18 < 2 ^ 18" by simp
  then show "uint (frac_lane x) \<le> 32767" unfolding uint_frac_lane by simp
qed simp

lemma uint_lt_sint16:
  fixes w :: "32 word"
  assumes "uint w \<le> 32767"
  shows "sint (ucast w :: 16 word) = uint w"
proof -
  have "sint (word_of_int (uint w) :: 16 word) = uint w"
    by (rule sint16_of_int) (use assms uint_ge_0[of w] in linarith)+
  then show ?thesis by simp
qed

lemma lo16_or_push: "lo16 (a OR push_bit 16 q) = lo16 a"
  unfolding lo16_def by (rule bit_word_eqI) (auto simp: bit_simps)

lemma hi16_or_push: "hi16 (a OR push_bit 16 q) = hi16 a OR ucast q"
  unfolding hi16_def by (rule bit_word_eqI) (auto simp: bit_simps)

lemma hi16_small: "uint a < 65536 \<Longrightarrow> hi16 a = 0"
proof -
  assume "uint a < 65536"
  then have "uint (drop_bit 16 a) = 0" by (simp add: unsigned_drop_bit_eq drop_bit_eq_div uint_div)
  then have "drop_bit 16 a = 0" by (simp add: uint_0_iff)
  then show ?thesis by (simp add: hi16_def)
qed

lemma shift_lane_weights:
  "sint (lo16 (shift_lane x)) = 32767 - uint (frac_lane x)"
  "sint (hi16 (shift_lane x)) = uint (frac_lane x)"
proof -
  let ?q = "frac_lane x"
  let ?a = "(32767 :: 32 word) - ?q"
  have q: "0 \<le> uint ?q" "uint ?q \<le> 32767" by (rule frac_lane_range)+
  have c: "(word_of_int (2 ^ SHIFT_BITS - 1) :: 32 word) = 32767" by (simp add: SHIFT_BITS_def)
  have "uint ?q \<le> uint (32767 :: 32 word)" using q by simp
  then have "uint ?a = uint (32767 :: 32 word) - uint ?q" by (simp only: uint_sub_lem)
  then have a: "uint ?a = 32767 - uint ?q" by simp
  have "lo16 (shift_lane x) = lo16 ?a"
    by (simp only: shift_lane_def c lo16_or_push)
  then have "sint (lo16 (shift_lane x)) = sint (ucast ?a :: 16 word)"
    by (simp only: lo16_def)
  also have "\<dots> = uint ?a" using a q by (intro uint_lt_sint16) simp
  finally show "sint (lo16 (shift_lane x)) = 32767 - uint ?q" using a by simp
  have "hi16 ?a = 0" using a q by (intro hi16_small) linarith
  then have "hi16 (shift_lane x) = ucast ?q"
    by (simp only: shift_lane_def c hi16_or_push) simp
  then show "sint (hi16 (shift_lane x)) = uint ?q"
    using q by (simp only: uint_lt_sint16)
qed

lemma sint_blend16:
  "sint (blend16 a b (shift_lane x)) = lerp15 (sint a) (sint b) (uint (frac_lane x))"
proof -
  have "shift_lane x = cat16 (lo16 (shift_lane x)) (hi16 (shift_lane x))"
    by (simp only: cat16_split)
  then have "blend16 a b (shift_lane x) =
      lo16 (signed_drop_bit 15 (madd16 (cat16 a b) (cat16 (lo16 (shift_lane x)) (hi16 (shift_lane x)))))"
    by (simp add: blend16_def SHIFT_BITS_def)
  then show ?thesis
    using blend_lane(2)[OF shift_lane_weights frac_lane_range, where a=a and b=b and x1=x] by simp
qed

lemma sint_madd16_shift:
  "sint (madd16 (cat16 a b) (shift_lane x)) =
     sint a * (32767 - uint (frac_lane x)) + sint b * uint (frac_lane x)"
proof -
  have "shift_lane x = cat16 (lo16 (shift_lane x)) (hi16 (shift_lane x))"
    by (simp only: cat16_split)
  then have "madd16 (cat16 a b) (shift_lane x) =
      madd16 (cat16 a b) (cat16 (lo16 (shift_lane x)) (hi16 (shift_lane x)))"
    by simp
  then show ?thesis
    using blend_lane(1)[OF shift_lane_weights frac_lane_range, where a=a and b=b and x1=x] by simp
qed

lemma lut3_pack_bytes:
  "bytes32 (lut3_pack (M128 r0 r1 r2 r3)) = [pack_lane r0, pack_lane r1, pack_lane r2, pack_lane r3]"
  by (simp add: lut3_pack_def Let_def mm_srai_epi32_def mm_add_epi32_def mm_set1_epi32_def
      mm_cvtsi128_si32_def pack_lane_def bytes32_def lo16_cat16 hi16_cat16 lo8_cat8 hi8_cat8)

lemma pack_lane_value:
  assumes "- 1073741824 \<le> sint r" "sint r \<le> 1073741824"
  shows "pack_lane r = clip8_lookups ((sint r + 1048576) div 2097152)"
proof -
  let ?S = "sint r"
  have c: "(word_of_int (PRECISION_ROUNDING * 2 ^ SHIFT_BITS) :: 32 word) = 1048576"
    and n: "PRECISION_BITS + SHIFT_BITS = 21"
    by (simp_all add: PRECISION_ROUNDING_def PRECISION_BITS_def SHIFT_BITS_def)
  let ?w = "(1048576 :: 32 word) + r"
  have "?w = word_of_int (1048576 + ?S)" by simp
  moreover have "sint (word_of_int (1048576 + ?S) :: 32 word) = 1048576 + ?S"
    by (rule sint32_of_int) (use assms in linarith)+
  ultimately have w: "sint ?w = ?S + 1048576" by simp
  let ?d = "signed_drop_bit 21 ?w"
  let ?v = "(?S + 1048576) div 2097152"
  have "sint ?d = drop_bit 21 (sint ?w)" by (rule sint_signed_drop_bit_eq)
  then have d: "sint ?d = ?v" unfolding w by (simp add: drop_bit_eq_div)
  have v: "- 512 \<le> ?v" "?v \<le> 512" using assms by simp_all
  have "max (- 32768) (min 32767 ?v) = ?v" using v by simp
  then have s: "sat16 ?d = word_of_int ?v" unfolding sat16_def d by simp
  have "sint (word_of_int ?v :: 16 word) = ?v"
    by (rule sint16_of_int) (use v in linarith)+
  then have "satu8 (sat16 ?d) = word_of_int (max 0 (min 255 ?v))"
    unfolding s satu8_def by simp
  moreover have "max 0 (min 255 ?v) = (if ?v < 0 then 0 else if 255 < ?v then 255 else ?v)"
    by simp
  ultimately show ?thesis unfolding pack_lane_def c n clip8_lookups_def by simp
qed

lemma clip8_shift:
  "clip8 (S div 2 ^ 15) = clip8_lookups ((S + 1048576) div 2097152)"
proof -
  have "(S div 2 ^ 15 + 32) div 64 = ((S + 32 * 2 ^ 15) div 2 ^ 15) div 64" by simp
  also have "\<dots> = (S + 32 * 2 ^ 15) div (2 ^ 15 * 64)" by (simp only: zdiv_zmult2_eq)
  finally show ?thesis by (simp add: clip8_def PRECISION_ROUNDING_def PRECISION_BITS_def)
qed

lemma lut_scale_eq: "1 \<le> sz \<Longrightarrow> lut_scale sz = ((sz - 1) * 262144) div 255"
  by (simp add: lut_scale_def SCALE_BITS_def Let_def)

lemma lut_scale_strict:
  assumes "2 \<le> sz" "sz \<le> 65"
  shows "lut_scale sz * 255 < (sz - 1) * 262144"
proof -
  let ?n = "(sz - 1) * 262144"
  have "?n mod 255 = ((sz - 1) * (262144 mod 255)) mod 255"
    by (rule mod_mult_right_eq[symmetric])
  also have "\<dots> = ((sz - 1) * 4) mod 255" by simp
  finally have m: "?n mod 255 = ((sz - 1) * 4) mod 255" .
  have "((sz - 1) * 4) mod 255 \<noteq> 0"
  proof (cases "sz = 65")
    case True
    then show ?thesis by simp
  next
    case False
    then have "0 < (sz - 1) * 4" "(sz - 1) * 4 < 255" using assms by simp_all
    then show ?thesis by simp
  qed
  with m have "?n mod 255 \<noteq> 0" by simp
  moreover have "0 \<le> ?n mod 255" by simp
  ultimately have "0 < ?n mod 255" by linarith
  moreover have "?n = (?n div 255) * 255 + ?n mod 255" by simp
  ultimately have "(?n div 255) * 255 < ?n" by linarith
  then show ?thesis using assms by (simp add: lut_scale_eq)
qed

lemma lut_scale_range:
  assumes "2 \<le> sz" "sz \<le> 65"
  shows "0 \<le> lut_scale sz" "lut_scale sz \<le> 65793"
  using assms by (simp_all add: lut_scale_eq) 

lemma grid_coord_range:
  assumes "2 \<le> sz" "sz \<le> 65" "0 \<le> v" "v \<le> 255"
  shows "0 \<le> grid_coord sz v" "grid_coord sz v < (sz - 1) * 262144" "grid_coord sz v \<le> 16777215"
proof -
  have s: "0 \<le> lut_scale sz" "lut_scale sz \<le> 65793" using lut_scale_range[OF assms(1,2)] .
  show "0 \<le> grid_coord sz v" unfolding grid_coord_def using s assms by simp
  have le: "lut_scale sz * v \<le> lut_scale sz * 255" using s(1) assms(4) by (rule mult_left_mono[rotated])
  then show "grid_coord sz v < (sz - 1) * 262144"
    unfolding grid_coord_def using lut_scale_strict[OF assms(1,2)] by linarith
  show "grid_coord sz v \<le> 16777215" unfolding grid_coord_def using le s by linarith
qed

lemma grid_index_bound:
  assumes "2 \<le> sz" "sz \<le> 65" "0 \<le> v" "v \<le> 255"
  shows "0 \<le> grid_coord sz v div 262144" "grid_coord sz v div 262144 \<le> sz - 2"
proof -
  show "0 \<le> grid_coord sz v div 262144" using grid_coord_range(1)[OF assms] by simp
  have "grid_coord sz v div 262144 < sz - 1"
    using grid_coord_range(2)[OF assms] by (simp add: div_less_iff_less_mult)
  then show "grid_coord sz v div 262144 \<le> sz - 2" by simp
qed

lemma uint_coord_lane:
  fixes v :: "8 word"
  assumes "2 \<le> sz" "sz \<le> 65"
  shows "uint (word_of_int (lut_scale sz) * ucast v :: 32 word) = grid_coord sz (uint v)"
proof -
  have v: "0 \<le> uint v" "uint v \<le> 255" using uint_lt2p[of v] by simp_all
  have r: "0 \<le> grid_coord sz (uint v)" "grid_coord sz (uint v) \<le> 16777215"
    using grid_coord_range[OF assms v] by simp_all
  have "(word_of_int (lut_scale sz) * ucast v :: 32 word) = word_of_int (grid_coord sz (uint v))"
    by (simp add: grid_coord_def)
  moreover have "uint (word_of_int (grid_coord sz (uint v)) :: 32 word) = grid_coord sz (uint v)"
    using r by (simp add: uint_word_of_int)
  ultimately show ?thesis by simp
qed

text \<open>
  The scale of the source is \<^verbatim>\<open>(size - 1) / 255.0 * (1 << SCALE_BITS)\<close> in double
  precision, converted to int.  The division is correctly rounded, so its result \<open>q\<close>
  is within relative error \<open>2^-53\<close> of the quotient; the multiplication by a power of two
  is exact, and the conversion truncates a positive value to its floor.  Every such
  \<open>q\<close> gives \<open>lut_scale\<close> for the sizes 2..65.
\<close>

lemma lut_scale_double:
  fixes q :: real
  assumes sz: "2 \<le> sz" "sz \<le> 65"
    and q: "\<bar>q - real_of_int (sz - 1) / 255\<bar> \<le> (real_of_int (sz - 1) / 255) / 2 ^ 53"
  shows "\<lfloor>q * 2 ^ SCALE_BITS\<rfloor> = lut_scale sz"
proof -
  define k where "k = (sz - 1) * 262144"
  define n where "n = k div 255"
  define m where "m = k mod 255"
  have n: "lut_scale sz = n" unfolding n_def k_def using sz by (simp add: lut_scale_eq)
  have "lut_scale sz * 255 < k" unfolding k_def by (rule lut_scale_strict[OF sz])
  moreover have km: "k = n * 255 + m" unfolding n_def m_def by simp
  ultimately have m: "1 \<le> m" "m \<le> 254" unfolding n m_def by simp_all
  define a where "a = real_of_int (sz - 1) / 255"
  define E where "E = a * 262144"
  have E: "E = real_of_int n + real_of_int m / 255"
  proof -
    have "E * 255 = real_of_int k" unfolding E_def a_def k_def by simp
    also have "\<dots> = real_of_int n * 255 + real_of_int m" unfolding km by simp
    finally show ?thesis by (simp add: field_simps)
  qed
  have a: "0 \<le> a" "a \<le> 64 / 255" unfolding a_def using sz by (simp_all add: field_simps)
  have "q * 262144 - E = 262144 * (q - a)" unfolding E_def by (simp add: algebra_simps)
  then have "\<bar>q * 262144 - E\<bar> = 262144 * \<bar>q - a\<bar>"
    by (simp only: abs_mult abs_numeral)
  also have "\<dots> \<le> 262144 * (a / 2 ^ 53)"
    using q unfolding a_def by (intro mult_left_mono) simp_all
  also have "\<dots> \<le> 262144 * ((64 / 255) / 2 ^ 53)"
    using a by (intro mult_left_mono divide_right_mono) simp_all
  also have "\<dots> < 1 / 255" by simp
  finally have d: "\<bar>q * 262144 - E\<bar> < 1 / 255" .
  have lo: "real_of_int n \<le> q * 262144"
  proof -
    have "real_of_int n + 1 / 255 \<le> E" unfolding E using m(1) by (simp add: field_simps)
    with d show ?thesis by linarith
  qed
  have hi: "q * 262144 < real_of_int n + 1"
  proof -
    have "E \<le> real_of_int n + 254 / 255" unfolding E using m(2) by (simp add: field_simps)
    with d show ?thesis by linarith
  qed
  have "\<lfloor>q * 262144\<rfloor> = n" using lo hi by (intro floor_unique) simp_all
  then show ?thesis unfolding n by (simp add: SCALE_BITS_def)
qed

lemma load_si128_Some:
  assumes "0 \<le> off" "nat off + 16 \<le> length buf"
  shows "load_si128 buf off = Some (m128i_of_bytes (take 16 (drop (nat off) buf)))"
  using assms by (simp add: load_si128_def load_range_def)

lemma load_si128_eq_None:
  "load_si128 buf off = None \<longleftrightarrow> \<not> (0 \<le> off \<and> nat off + 16 \<le> length buf)"
  by (simp add: load_si128_def load_range_def)

lemma cvtepu8_of_bytes:
  "mm_cvtepu8_epi32 (m128i_of_bytes bs) = M128 (ucast (bs ! 0)) (ucast (bs ! 1)) (ucast (bs ! 2)) (ucast (bs ! 3))"
  by (simp add: m128i_of_bytes_def word32_of_bytes_def lo16_cat16 hi16_cat16 lo8_cat8 hi8_cat8)

lemma cvtepu8_load:
  assumes "load_si128 buf off = Some px"
  shows "mm_cvtepu8_epi32 px = M128 (ucast (buf ! nat off)) (ucast (buf ! (nat off + 1)))
                                    (ucast (buf ! (nat off + 2))) (ucast (buf ! (nat off + 3)))"
proof -
  from assms have r: "0 \<le> off" "nat off + 16 \<le> length buf"
    using load_si128_eq_None[of buf off] by auto
  with assms have px: "px = m128i_of_bytes (take 16 (drop (nat off) buf))"
    by (simp add: load_si128_Some)
  show ?thesis unfolding px cvtepu8_of_bytes using r by (simp add: add.commute)
qed

lemma lut_index_load:
  assumes "load_si128 buf off = Some px"
  shows "lut_index (scale size1D size2D size3D) px =
     M128 (coord_lane size1D (buf ! nat off)) (coord_lane size2D (buf ! (nat off + 1)))
          (coord_lane size3D (buf ! (nat off + 2))) 0"
  unfolding lut_index_def cvtepu8_load[OF assms]
  by (simp add: scale_def mm_set_epi32_def mm_mullo_epi32_def coord_lane_def)

lemma uint_index_lane: "uint (drop_bit SCALE_BITS (x :: 32 word)) = uint x div 262144"
  by (simp add: SCALE_BITS_def unsigned_drop_bit_eq drop_bit_eq_div uint_div)

lemma index_lane_small: "uint (drop_bit SCALE_BITS (x :: 32 word)) \<le> 16383"
proof -
  have "uint x < 4294967296" using uint_lt2p[of x] by simp
  then show ?thesis unfolding uint_index_lane by simp
qed

lemma hi16_of_int: "0 \<le> s \<Longrightarrow> s \<le> 32767 \<Longrightarrow> hi16 (word_of_int s :: 32 word) = 0"
  by (rule hi16_small) (simp add: uint_word_of_int)

lemma madd16_small:
  fixes d :: "32 word"
  assumes "0 \<le> s" "s \<le> 32767" "uint d \<le> 32767"
  shows "madd16 (word_of_int s) d = word_of_int (s * uint d)"
proof -
  have "sint (word_of_int s :: 32 word) = s" by (rule sint32_of_int) (use assms in linarith)+
  then have "lo16 (word_of_int s :: 32 word) = word_of_int s" by (simp only: lo16_sint)
  moreover have "sint (word_of_int s :: 16 word) = s" by (rule sint16_of_int) (use assms in linarith)+
  ultimately have a: "sint (lo16 (word_of_int s :: 32 word)) = s" by simp
  have b: "sint (lo16 d) = uint d" unfolding lo16_def by (rule uint_lt_sint16) fact
  have c: "hi16 d = 0" by (rule hi16_small) (use assms in linarith)
  show ?thesis unfolding madd16_def a b c hi16_of_int[OF assms(1,2)] by simp
qed

lemma lut_idx_value:
  assumes "0 \<le> size1D" "size1D \<le> 32767" "0 \<le> size1D_2D" "size1D_2D \<le> 32767"
  shows "lut_idx table_channels (index_mul size1D size1D_2D) (M128 x0 x1 x2 0) =
     table_channels * (uint x0 div 262144 + size1D * (uint x1 div 262144) + size1D_2D * (uint x2 div 262144))"
proof -
  let ?d = "\<lambda>x :: 32 word. drop_bit SCALE_BITS x"
  let ?i = "\<lambda>x :: 32 word. uint x div 262144"
  have i: "\<And>x :: 32 word. 0 \<le> ?i x \<and> ?i x \<le> 16383"
    using index_lane_small uint_index_lane by (metis div_int_pos_iff uint_ge_0 zero_le_numeral)
  have m0: "madd16 (word_of_int 1) (?d x0) = word_of_int (?i x0)"
    using madd16_small[of 1 "?d x0"] index_lane_small[of x0] by (simp add: uint_index_lane)
  have m1: "madd16 (word_of_int size1D) (?d x1) = word_of_int (size1D * ?i x1)"
    using madd16_small[OF assms(1,2), of "?d x1"] index_lane_small[of x1] by (simp add: uint_index_lane)
  have m2: "madd16 (word_of_int size1D_2D) (?d x2) = word_of_int (size1D_2D * ?i x2)"
    using madd16_small[OF assms(3,4), of "?d x2"] index_lane_small[of x2] by (simp add: uint_index_lane)
  have m3: "madd16 (word_of_int 0) (?d 0) = 0" by (simp add: madd16_def lo16_def hi16_def)
  let ?sum = "?i x0 + size1D * ?i x1 + size1D_2D * ?i x2"
  have bnd: "0 \<le> s * k \<and> s * k \<le> 32767 * 16383"
    if "0 \<le> s" "s \<le> 32767" "0 \<le> k \<and> k \<le> 16383" for s k :: int
  proof
    show "0 \<le> s * k" using that by simp
    have "s * k \<le> 32767 * k" using that by (intro mult_right_mono) simp_all
    also have "\<dots> \<le> 32767 * 16383" using that by simp
    finally show "s * k \<le> 32767 * 16383" .
  qed
  have b1: "0 \<le> size1D * ?i x1" "size1D * ?i x1 \<le> 32767 * 16383"
    using bnd[OF assms(1,2) i[of x1]] by simp_all
  have b2: "0 \<le> size1D_2D * ?i x2" "size1D_2D * ?i x2 \<le> 32767 * 16383"
    using bnd[OF assms(3,4) i[of x2]] by simp_all
  have s: "sint (word_of_int ?sum :: 32 word) = ?sum"
    by (rule sint32_of_int) (use b1 b2 i[of x0] in linarith)+
  have "mm_extract_epi32 (mm_hadd_epi32 (mm_hadd_epi32
          (mm_madd_epi16 (index_mul size1D size1D_2D) (mm_srli_epi32 (M128 x0 x1 x2 0) SCALE_BITS))
          mm_setzero_si128) mm_setzero_si128) 0 = sint (word_of_int ?sum :: 32 word)"
    unfolding index_mul_def mm_set_epi32_def mm_srli_epi32_def mm_madd_epi16_def mm_setzero_si128_def
      map_epi32.simps zip_epi32.simps m0 m1 m2 m3 mm_hadd_epi32.simps mm_extract_epi32_def lane_def
    by (simp add: algebra_simps)
  then show ?thesis unfolding lut_idx_def s by simp
qed

declare lut_row.simps [simp del] lut_rows.simps [simp del]

lemma store_u32_Some:
  assumes "4 * x + 4 \<le> length buf"
  shows "\<exists>buf'. store_u32 buf x v = Some buf' \<and> length buf' = length buf \<and>
           (\<forall>i<length buf. buf' ! i = (if 4 * x \<le> i \<and> i < 4 * x + 4 then bytes32 v ! (i mod 4) else buf ! i))"
proof -
  let ?b = "take (4 * x) buf @ bytes32 v @ drop (4 * x + 4) buf"
  have len: "length (bytes32 v) = 4" by (simp add: bytes32_def)
  have t: "length (take (4 * x) buf) = 4 * x" using assms by simp
  have l: "length ?b = length buf" using assms len by simp
  have "?b ! i = (if 4 * x \<le> i \<and> i < 4 * x + 4 then bytes32 v ! (i mod 4) else buf ! i)"
    if "i < length buf" for i
  proof -
    consider "i < 4 * x" | "4 * x \<le> i" "i < 4 * x + 4" | "4 * x + 4 \<le> i" by linarith
    then show ?thesis
    proof cases
      case 1
      then have "?b ! i = take (4 * x) buf ! i" by (simp only: nth_append t) simp
      with 1 show ?thesis by simp
    next
      case 2
      then have lt: "i - 4 * x < 4" by linarith
      have "i mod 4 = (4 * x + (i - 4 * x)) mod 4" using 2(1) by simp
      also have "\<dots> = (i - 4 * x) mod 4" by (rule mod_mult_self4)
      also have "\<dots> = i - 4 * x" using lt by simp
      finally have m: "i mod 4 = i - 4 * x" .
      have "?b ! i = (bytes32 v @ drop (4 * x + 4) buf) ! (i - 4 * x)"
        using 2(1) by (simp only: nth_append t) simp
      also have "\<dots> = bytes32 v ! (i - 4 * x)"
        using lt by (simp only: nth_append len) simp
      finally show ?thesis using 2 m by simp
    next
      case 3
      then have ge: "\<not> i < 4 * x" "\<not> i - 4 * x < 4" by linarith+
      have "?b ! i = (bytes32 v @ drop (4 * x + 4) buf) ! (i - 4 * x)"
        using ge(1) by (simp only: nth_append t) simp
      also have "\<dots> = drop (4 * x + 4) buf ! (i - 4 * x - 4)"
        using ge(2) by (simp only: nth_append len) simp
      also have "\<dots> = buf ! (4 * x + 4 + (i - 4 * x - 4))"
        using assms by (intro nth_drop) 
      also have "4 * x + 4 + (i - 4 * x - 4) = i" using 3 by linarith
      finally show ?thesis using 3 by simp
    qed
  qed
  then have "\<forall>i<length buf. ?b ! i =
      (if 4 * x \<le> i \<and> i < 4 * x + 4 then bytes32 v ! (i mod 4) else buf ! i)" by blast
  moreover have "store_u32 buf x v = Some ?b" using assms by (simp add: store_u32_def)
  ultimately show ?thesis using l by blast
qed

lemma row_prefetches_Nil: "n \<le> x \<Longrightarrow> row_prefetches ri x n = []"
  by (simp add: row_prefetches_def)

lemma row_prefetches_Cons:
  "x < n \<Longrightarrow> row_prefetches ri x n = (int x * 4 + 4, load_si128 ri (int x * 4 + 4)) # row_prefetches ri (Suc x) n"
  by (simp add: row_prefetches_def upt_conv_Cons)

lemma row_prefetches_nth:
  "k < n \<Longrightarrow> length (row_prefetches ri 0 n) = n \<and>
     row_prefetches ri 0 n ! k = (int k * 4 + 4, load_si128 ri (int k * 4 + 4))"
  by (simp add: row_prefetches_def)

lemma lut_row_done:
  "\<not> int x < xs \<Longrightarrow> lut_row tc s1 s12 sc t ri ix i xs x ro rd = (None, ro, rd)"
  by (subst lut_row.simps) simp

lemma lut_row_skip:
  "int x < xs \<Longrightarrow> tc \<noteq> 3 \<Longrightarrow>
     lut_row tc s1 s12 sc t ri ix i xs x ro rd =
       lut_row tc s1 s12 sc t ri ix i xs (Suc x) ro (rd @ [(int x * 4 + 4, load_si128 ri (int x * 4 + 4))])"
  by (subst lut_row.simps) (simp add: Let_def)

lemma lut_row_blend_fault:
  "int x < xs \<Longrightarrow> lut3_blend t i s1 s12 (lut_shift ix) = None \<Longrightarrow>
     lut_row 3 s1 s12 sc t ri ix i xs x ro rd =
       (Some MemoryFault, ro, rd @ [(int x * 4 + 4, load_si128 ri (int x * 4 + 4))])"
  by (subst lut_row.simps) (simp add: Let_def)

lemma lut_row_store_fault:
  "int x < xs \<Longrightarrow> lut3_blend t i s1 s12 (lut_shift ix) = Some regs \<Longrightarrow>
     store_u32 ro x (lut3_pack (result regs)) = None \<Longrightarrow>
     lut_row 3 s1 s12 sc t ri ix i xs x ro rd =
       (Some MemoryFault, ro, rd @ [(int x * 4 + 4, load_si128 ri (int x * 4 + 4))])"
  by (subst lut_row.simps) (simp add: Let_def)

lemma lut_row_store:
  "int x < xs \<Longrightarrow> lut3_blend t i s1 s12 (lut_shift ix) = Some regs \<Longrightarrow>
     store_u32 ro x (lut3_pack (result regs)) = Some ro' \<Longrightarrow>
     lut_row 3 s1 s12 sc t ri ix i xs x ro rd =
       lut_row 3 s1 s12 sc t ri ix i xs (Suc x) ro' (rd @ [(int x * 4 + 4, load_si128 ri (int x * 4 + 4))])"
  by (subst lut_row.simps) (simp add: Let_def)

text \<open>Three-channel rows: every pixel of the row receives the same four bytes, whatever
  the prefetches read.\<close>

lemma lut_row_3:
  assumes blend: "lut3_blend t i s1 s12 (lut_shift ix) = Some regs"
    and ro: "4 * nat xs \<le> length ro"
  shows "\<exists>ro'. lut_row 3 s1 s12 sc t ri ix i xs x ro rd = (None, ro', rd @ row_prefetches ri x (nat xs)) \<and>
           length ro' = length ro \<and>
           (\<forall>k<length ro. ro' ! k = (if 4 * x \<le> k \<and> k < 4 * nat xs
                                     then bytes32 (lut3_pack (result regs)) ! (k mod 4) else ro ! k))"
  using ro
proof (induction "nat xs - x" arbitrary: x ro rd)
  case 0
  then have "\<not> int x < xs" by simp
  then have "lut_row 3 s1 s12 sc t ri ix i xs x ro rd = (None, ro, rd)" by (rule lut_row_done)
  moreover have "\<not> (4 * x \<le> k \<and> k < 4 * nat xs)" for k using 0 by simp
  moreover have "row_prefetches ri x (nat xs) = []" using 0 by (simp add: row_prefetches_Nil)
  ultimately show ?case by auto
next
  case (Suc n)
  then have x: "int x < xs" "x < nat xs" by simp_all
  let ?p = "(int x * 4 + 4, load_si128 ri (int x * 4 + 4))"
  have "4 * x + 4 \<le> length ro" using x(2) Suc.prems by simp
  from store_u32_Some[OF this, of "lut3_pack (result regs)"]
  obtain ro1 where st: "store_u32 ro x (lut3_pack (result regs)) = Some ro1"
    and l1: "length ro1 = length ro"
    and n1: "\<forall>k<length ro. ro1 ! k = (if 4 * x \<le> k \<and> k < 4 * x + 4
               then bytes32 (lut3_pack (result regs)) ! (k mod 4) else ro ! k)"
    by blast
  have step: "lut_row 3 s1 s12 sc t ri ix i xs x ro rd = lut_row 3 s1 s12 sc t ri ix i xs (Suc x) ro1 (rd @ [?p])"
    by (rule lut_row_store[OF x(1) blend st])
  have "n = nat xs - Suc x" using Suc.hyps(2) by simp
  moreover have "4 * nat xs \<le> length ro1" using l1 Suc.prems by simp
  ultimately obtain ro' where
    r: "lut_row 3 s1 s12 sc t ri ix i xs (Suc x) ro1 (rd @ [?p]) =
          (None, ro', (rd @ [?p]) @ row_prefetches ri (Suc x) (nat xs))"
    and l': "length ro' = length ro1"
    and n': "\<forall>k<length ro1. ro' ! k = (if 4 * Suc x \<le> k \<and> k < 4 * nat xs
               then bytes32 (lut3_pack (result regs)) ! (k mod 4) else ro1 ! k)"
    using Suc.hyps(1)[of "Suc x" ro1 "rd @ [?p]"] by blast
  have "ro' ! k = (if 4 * x \<le> k \<and> k < 4 * nat xs
          then bytes32 (lut3_pack (result regs)) ! (k mod 4) else ro ! k)" if "k < length ro" for k
    using n'[rule_format, of k] n1[rule_format, of k] that l1 x(2) by (auto split: if_splits)
  moreover have "(rd @ [?p]) @ row_prefetches ri (Suc x) (nat xs) = rd @ row_prefetches ri x (nat xs)"
    by (simp add: row_prefetches_Cons[OF x(2)])
  ultimately show ?case using step r l' l1 by simp
qed

lemma lut_row_4:
  assumes "tc \<noteq> 3"
  shows "lut_row tc s1 s12 sc t ri ix i xs x ro rd = (None, ro, rd @ row_prefetches ri x (nat xs))"
proof (induction "nat xs - x" arbitrary: x rd)
  case 0
  then have "\<not> int x < xs" by simp
  then show ?case using 0 by (simp add: lut_row_done row_prefetches_Nil)
next
  case (Suc n)
  then have x: "int x < xs" "x < nat xs" by simp_all
  have "n = nat xs - Suc x" using Suc.hyps(2) by simp
  then show ?case
    using lut_row_skip[OF x(1) assms] Suc.hyps(1)[of "Suc x"] by (simp add: row_prefetches_Cons[OF x(2)])
qed

text \<open>Whatever the loop over \<open>x\<close> returns, the only error is a memory fault, and the
  prefetches of a loop that ran to its end are those of all its iterations.\<close>

lemma lut_row_result:
  "(fst (lut_row tc s1 s12 sc t ri ix i xs x ro rd) = Some e \<longrightarrow> e = MemoryFault) \<and>
   (fst (lut_row tc s1 s12 sc t ri ix i xs x ro rd) = None \<longrightarrow>
      snd (snd (lut_row tc s1 s12 sc t ri ix i xs x ro rd)) = rd @ row_prefetches ri x (nat xs))"
proof (induction "nat xs - x" arbitrary: x ro rd)
  case 0
  then have "\<not> int x < xs" by simp
  from lut_row_done[OF this] 0 show ?case by (simp add: row_prefetches_Nil)
next
  case (Suc n)
  have x: "int x < xs" "x < nat xs" using Suc.hyps(2) by simp_all
  have n: "n = nat xs - Suc x" using Suc.hyps(2) by simp
  note c = row_prefetches_Cons[OF x(2), of ri]
  show ?case
  proof (cases "tc = 3")
    case False
    then show ?thesis using lut_row_skip[OF x(1) False] Suc.hyps(1)[OF n] c by simp
  next
    case tc: True
    show ?thesis
    proof (cases "lut3_blend t i s1 s12 (lut_shift ix)")
      case None
      then show ?thesis using lut_row_blend_fault[OF x(1) None] tc by simp
    next
      case regs: (Some regs)
      show ?thesis
      proof (cases "store_u32 ro x (lut3_pack (result regs))")
        case None
        then show ?thesis using lut_row_store_fault[OF x(1) regs None] tc by simp
      next
        case st: (Some ro')
        then show ?thesis using lut_row_store[OF x(1) regs st] Suc.hyps(1)[OF n] tc c by simp
      qed
    qed
  qed
qed

lemma lut_row_error:
  "fst (lut_row tc s1 s12 sc t ri ix i xs x ro rd) = Some e \<Longrightarrow> e = MemoryFault"
  using lut_row_result by blast

lemma lut_row_reads:
  "fst (lut_row tc s1 s12 sc t ri ix i xs x ro rd) = None \<Longrightarrow>
     snd (snd (lut_row tc s1 s12 sc t ri ix i xs x ro rd)) = rd @ row_prefetches ri x (nat xs)"
  using lut_row_result by blast

lemma lut_rows_done:
  "\<not> int y < ys \<Longrightarrow> lut_rows tc s1 s12 sc t rowsIn xs ys y ro rd = (None, ro, rd)"
  by (subst lut_rows.simps) simp

lemma lut_rows_oob:
  "int y < ys \<Longrightarrow> length rowsIn \<le> y \<or> length ro \<le> y \<Longrightarrow>
     lut_rows tc s1 s12 sc t rowsIn xs ys y ro rd = (Some MemoryFault, ro, rd)"
  by (subst lut_rows.simps) simp

lemma lut_rows_step:
  assumes "int y < ys" "y < length rowsIn" "y < length ro"
    and "lut_line tc s1 s12 sc t (rowsIn ! y) xs (ro ! y) = (None, r', p)"
  shows "lut_rows tc s1 s12 sc t rowsIn xs ys y ro rd =
     lut_rows tc s1 s12 sc t rowsIn xs ys (Suc y) (ro[y := r']) (rd @ [p])"
  using assms
  by (subst lut_rows.simps) (auto simp: lut_line_def Let_def split: option.splits)

lemma lut_rows_step_error:
  assumes "int y < ys" "y < length rowsIn" "y < length ro"
    and "fst (lut_line tc s1 s12 sc t (rowsIn ! y) xs (ro ! y)) = Some e"
  shows "fst (lut_rows tc s1 s12 sc t rowsIn xs ys y ro rd) = Some e"
  using assms
  by (subst lut_rows.simps) (auto simp: lut_line_def Let_def split: option.splits prod.splits)

lemma lut_line_error:
  "fst (lut_line tc s1 s12 sc t ri xs ro) = Some e \<Longrightarrow> e = MemoryFault"
  unfolding lut_line_def by (cases "load_si128 ri 0") (auto dest: lut_row_error)

lemma lut_line_reads:
  "fst (lut_line tc s1 s12 sc t ri xs ro) = None \<Longrightarrow>
     (\<exists>px. load_si128 ri 0 = Some px) \<and>
     snd (snd (lut_line tc s1 s12 sc t ri xs ro)) = row_prefetches ri 0 (nat xs)"
  unfolding lut_line_def by (cases "load_si128 ri 0") (auto dest: lut_row_reads)

lemma lut_rows_error:
  "fst (lut_rows tc s1 s12 sc t rowsIn xs ys y ro rd) = Some e \<Longrightarrow> e = MemoryFault"
proof (induction "nat ys - y" arbitrary: y ro rd)
  case 0
  then have "\<not> int y < ys" by simp
  from lut_rows_done[OF this] 0 show ?case by simp
next
  case (Suc n)
  have y: "int y < ys" using Suc.hyps(2) by simp
  have n: "n = nat ys - Suc y" using Suc.hyps(2) by simp
  show ?case
  proof (cases "length rowsIn \<le> y \<or> length ro \<le> y")
    case True
    from lut_rows_oob[OF y True] Suc.prems show ?thesis by simp
  next
    case False
    then have yl: "y < length rowsIn" "y < length ro" by simp_all
    obtain e' r' p where line: "lut_line tc s1 s12 sc t (rowsIn ! y) xs (ro ! y) = (e', r', p)"
      by (cases "lut_line tc s1 s12 sc t (rowsIn ! y) xs (ro ! y)")
    show ?thesis
    proof (cases e')
      case None
      then show ?thesis using lut_rows_step[OF y yl, of tc s1 s12 sc t xs r' p] line Suc.hyps(1)[OF n] Suc.prems by simp
    next
      case (Some e2)
      then have "e2 = MemoryFault" using lut_line_error[of tc s1 s12 sc t "rowsIn ! y" xs "ro ! y" e2] line by simp
      moreover have "fst (lut_rows tc s1 s12 sc t rowsIn xs ys y ro rd) = Some e2"
        by (rule lut_rows_step_error[OF y yl]) (simp add: line Some)
      ultimately show ?thesis using Suc.prems by simp
    qed
  qed
qed

lemma lut_rows_ok:
  assumes "nat ys \<le> length rowsIn"
  shows "nat ys \<le> length ro \<Longrightarrow>
     \<forall>y'. y \<le> y' \<and> y' < nat ys \<longrightarrow> fst (lut_line tc s1 s12 sc t (rowsIn ! y') xs (ro ! y')) = None \<Longrightarrow>
     \<exists>ro'. lut_rows tc s1 s12 sc t rowsIn xs ys y ro rd =
              (None, ro', rd @ map (\<lambda>y'. snd (snd (lut_line tc s1 s12 sc t (rowsIn ! y') xs (ro ! y')))) [y..<nat ys]) \<and>
       length ro' = length ro \<and>
       (\<forall>y'<length ro. ro' ! y' = (if y \<le> y' \<and> y' < nat ys
            then fst (snd (lut_line tc s1 s12 sc t (rowsIn ! y') xs (ro ! y'))) else ro ! y'))"
proof (induction "nat ys - y" arbitrary: y ro rd)
  case 0
  then have "\<not> int y < ys" by simp
  then have "lut_rows tc s1 s12 sc t rowsIn xs ys y ro rd = (None, ro, rd)" by (rule lut_rows_done)
  moreover have "\<not> (y \<le> y' \<and> y' < nat ys)" for y' using 0 by simp
  moreover have "[y..<nat ys] = []" using 0 by simp
  ultimately show ?case by auto
next
  case (Suc n)
  then have y: "int y < ys" "y < nat ys" by simp_all
  then have yl: "y < length rowsIn" "y < length ro" using assms Suc.prems(1) by simp_all
  obtain r' p where line: "lut_line tc s1 s12 sc t (rowsIn ! y) xs (ro ! y) = (None, r', p)"
    using Suc.prems(2)[rule_format, of y] y(2) by (cases "lut_line tc s1 s12 sc t (rowsIn ! y) xs (ro ! y)") simp
  let ?ro1 = "ro[y := r']"
  have step: "lut_rows tc s1 s12 sc t rowsIn xs ys y ro rd =
      lut_rows tc s1 s12 sc t rowsIn xs ys (Suc y) ?ro1 (rd @ [p])"
    by (rule lut_rows_step[OF y(1) yl line])
  have n: "n = nat ys - Suc y" using Suc.hyps(2) by simp
  have l1: "nat ys \<le> length ?ro1" using Suc.prems(1) by simp
  have h1: "\<forall>y'. Suc y \<le> y' \<and> y' < nat ys \<longrightarrow>
      fst (lut_line tc s1 s12 sc t (rowsIn ! y') xs (?ro1 ! y')) = None"
    using Suc.prems(2) by simp
  obtain ro' where
    r: "lut_rows tc s1 s12 sc t rowsIn xs ys (Suc y) ?ro1 (rd @ [p]) =
          (None, ro', (rd @ [p]) @ map (\<lambda>y'. snd (snd (lut_line tc s1 s12 sc t (rowsIn ! y') xs (?ro1 ! y')))) [Suc y..<nat ys])"
    and l': "length ro' = length ?ro1"
    and n': "\<forall>y'<length ?ro1. ro' ! y' = (if Suc y \<le> y' \<and> y' < nat ys
            then fst (snd (lut_line tc s1 s12 sc t (rowsIn ! y') xs (?ro1 ! y'))) else ?ro1 ! y')"
    using Suc.hyps(1)[OF n l1 h1, of "rd @ [p]"] by blast
  have "ro' ! y' = (if y \<le> y' \<and> y' < nat ys
            then fst (snd (lut_line tc s1 s12 sc t (rowsIn ! y') xs (ro ! y'))) else ro ! y')"
    if "y' < length ro" for y'
  proof (cases "y' = y")
    case True
    then show ?thesis using n'[rule_format, of y] yl(2) y(2) line by simp
  next
    case False
    then show ?thesis using n'[rule_format, of y'] that by auto
  qed
  moreover have "map (\<lambda>y'. snd (snd (lut_line tc s1 s12 sc t (rowsIn ! y') xs (?ro1 ! y')))) [Suc y..<nat ys] =
      map (\<lambda>y'. snd (snd (lut_line tc s1 s12 sc t (rowsIn ! y') xs (ro ! y')))) [Suc y..<nat ys]"
    by (rule map_cong) simp_all
  moreover have "[y..<nat ys] = y # [Suc y..<nat ys]" using y(2) by (simp add: upt_conv_Cons)
  ultimately show ?case using step r l' line by simp
qed

lemma lut_rows_None_D:
  "fst (lut_rows tc s1 s12 sc t rowsIn xs ys y ro rd) = None \<Longrightarrow> y \<le> y' \<Longrightarrow> y' < nat ys \<Longrightarrow>
     y' < length rowsIn \<and> y' < length ro \<and> fst (lut_line tc s1 s12 sc t (rowsIn ! y') xs (ro ! y')) = None"
proof (induction "nat ys - y" arbitrary: y ro rd)
  case 0
  then show ?case by simp
next
  case (Suc n)
  then have y: "int y < ys" "y < nat ys" by simp_all
  have yl: "y < length rowsIn" "y < length ro"
    using lut_rows_oob[OF y(1), of rowsIn ro tc s1 s12 sc t xs rd] Suc.prems(1) by (auto simp: not_le[symmetric])
  obtain e r' p where line: "lut_line tc s1 s12 sc t (rowsIn ! y) xs (ro ! y) = (e, r', p)"
    by (cases "lut_line tc s1 s12 sc t (rowsIn ! y) xs (ro ! y)")
  have e: "e = None"
  proof (cases e)
    case (Some e2)
    have "fst (lut_rows tc s1 s12 sc t rowsIn xs ys y ro rd) = Some e2"
      by (rule lut_rows_step_error[OF y(1) yl]) (simp add: line Some)
    with Suc.prems(1) show ?thesis by simp
  qed simp
  have step: "lut_rows tc s1 s12 sc t rowsIn xs ys y ro rd =
      lut_rows tc s1 s12 sc t rowsIn xs ys (Suc y) (ro[y := r']) (rd @ [p])"
    by (rule lut_rows_step[OF y(1) yl line[unfolded e]])
  show ?case
  proof (cases "y' = y")
    case True
    then show ?thesis using yl line e by simp
  next
    case False
    then have "Suc y \<le> y'" using Suc.prems(2) by simp
    moreover have "n = nat ys - Suc y" using Suc.hyps(2) by simp
    moreover have "fst (lut_rows tc s1 s12 sc t rowsIn xs ys (Suc y) (ro[y := r']) (rd @ [p])) = None"
      using Suc.prems(1) step by simp
    ultimately have "y' < length rowsIn \<and> y' < length (ro[y := r']) \<and>
        fst (lut_line tc s1 s12 sc t (rowsIn ! y') xs (ro[y := r'] ! y')) = None"
      using Suc.hyps(1)[of "Suc y" "ro[y := r']" "rd @ [p]"] Suc.prems(3) by blast
    then show ?thesis using False by simp
  qed
qed

lemma sint_frac16: "sint (ucast (frac_lane x) :: 16 word) = uint (frac_lane x)"
  by (rule uint_lt_sint16) (rule frac_lane_range)

lemma interpolate1_biased_lerp:
  "interpolate1_biased a b (ucast (frac_lane x)) = word_of_int (lerp15 (sint a) (sint b) (uint (frac_lane x)))"
  unfolding interpolate1_biased_def sint_frac16 lerp15_def by (simp add: SHIFT_BITS_def)

lemma blend16_biased:
  "blend16 a b (shift_lane x) = interpolate1_biased a b (ucast (frac_lane x))"
proof -
  have "blend16 a b (shift_lane x) = word_of_int (sint (blend16 a b (shift_lane x)))" by simp
  then show ?thesis unfolding sint_blend16 interpolate1_biased_lerp .
qed

lemma corner16_biased:
  "corner16 table off c (shift_lane x) =
     interpolate1_biased (table ! (off + c)) (table ! (off + 3 + c)) (ucast (frac_lane x))"
  by (simp only: corner16_def blend16_biased)

lemma pack_biased:
  "pack_lane (madd16 (cat16 l r) (shift_lane x)) = clip8 (sint (interpolate1_biased l r (ucast (frac_lane x))))"
proof -
  let ?f = "uint (frac_lane x)"
  let ?S = "sint l * (32767 - ?f) + sint r * ?f"
  have f: "0 \<le> ?f" "?f \<le> 32767" by (rule frac_lane_range)+
  have rg: "- 32768 \<le> sint l" "sint l \<le> 32767" "- 32768 \<le> sint r" "sint r \<le> 32767"
    using sint16_range[of l] sint16_range[of r] by simp_all
  have S: "- 32768 * 32767 \<le> ?S" "?S \<le> 32767 * 32767" using wsum_bounds[OF rg f] by simp_all
  have m: "sint (madd16 (cat16 l r) (shift_lane x)) = ?S" by (rule sint_madd16_shift)
  have "pack_lane (madd16 (cat16 l r) (shift_lane x)) = clip8_lookups ((?S + 1048576) div 2097152)"
    using pack_lane_value[of "madd16 (cat16 l r) (shift_lane x)"] S unfolding m by simp
  also have "\<dots> = clip8 (?S div 2 ^ 15)" by (rule clip8_shift[symmetric])
  also have "?S div 2 ^ 15 = lerp15 (sint l) (sint r) ?f" by (simp add: lerp15_def)
  also have "\<dots> = sint (word_of_int (lerp15 (sint l) (sint r) ?f) :: 16 word)"
    using lerp15_bounds[OF rg f] by (intro sint16_of_int[symmetric]) simp_all
  finally show ?thesis by (simp only: interpolate1_biased_lerp)
qed

lemma table3_nat:
  assumes "0 \<le> off"
  shows "table3 table off = (table ! nat off, table ! (nat off + 1), table ! (nat off + 2))"
    and "table3 table (off + 3) = (table ! (nat off + 3), table ! (nat off + 4), table ! (nat off + 5))"
  using assms by (simp_all add: table3_def nat_add_distrib add.commute)

lemma lut3_kernel_biased:
  assumes "lut3_blend table idx size1D size1D_2D (lut_shift (M128 x0 x1 x2 x3)) = Some regs"
  shows "take 3 (bytes32 (lut3_pack (result regs))) =
     scalar_lut3_biased table idx size1D size1D_2D
       (ucast (frac_lane x0)) (ucast (frac_lane x1)) (ucast (frac_lane x2))"
proof -
  note d = lut3_blend_Some_D[OF assms]
  have nn: "0 \<le> idx + 0" "0 \<le> idx + size1D * 3" "0 \<le> idx + size1D_2D * 3"
      "0 \<le> idx + size1D_2D * 3 + size1D * 3" using d by simp_all
  have ln: "nat (idx + 0) + 8 \<le> length table" "nat (idx + size1D * 3) + 8 \<le> length table"
      "nat (idx + size1D_2D * 3) + 8 \<le> length table"
      "nat (idx + size1D_2D * 3 + size1D * 3) + 8 \<le> length table" using d by simp_all
  have r: "result regs = result (the (lut3_blend table idx size1D size1D_2D (lut_shift (M128 x0 x1 x2 x3))))"
    using assms by simp
  show ?thesis
    unfolding r lut_shift_lanes lut3_blend_lanes[OF nn ln] option.sel
    unfolding scalar_lut3_biased_def Let_def table3_nat[OF nn(1)] table3_nat[OF nn(2)]
      table3_nat[OF nn(3)] table3_nat[OF nn(4)] interpolate3_biased.simps prod.case
    by (simp add: lut3_pack_bytes pack_biased blend16_biased corner16_biased add.commute)
qed

lemma uint_coord_lane':
  "2 \<le> sz \<Longrightarrow> sz \<le> 65 \<Longrightarrow> uint (coord_lane sz v) = grid_coord sz (uint v)"
  unfolding coord_lane_def by (rule uint_coord_lane)

lemma uint8_range: "0 \<le> uint (v :: 8 word)" "uint (v :: 8 word) \<le> 255"
  using uint_lt2p[of v] by simp_all

lemma index_lane_value:
  assumes "2 \<le> sz" "sz \<le> 65"
  shows "uint (drop_bit SCALE_BITS (coord_lane sz v)) = grid_index sz (uint v)"
  unfolding uint_index_lane uint_coord_lane'[OF assms] grid_index_def by (simp add: SCALE_BITS_def)

lemma grid_index_range:
  assumes "2 \<le> sz" "sz \<le> 65"
  shows "0 \<le> grid_index sz (uint (v :: 8 word))" "grid_index sz (uint v) \<le> sz - 2"
  using grid_index_bound[OF assms uint8_range, of v] by (simp_all add: grid_index_def SCALE_BITS_def)

lemma frac_lane_value:
  assumes "2 \<le> sz" "sz \<le> 65"
  shows "uint (frac_lane (coord_lane sz v)) = grid_frac sz (uint v)"
  unfolding uint_frac_lane uint_coord_lane'[OF assms] grid_frac_def
  by (simp add: SCALE_BITS_def SHIFT_BITS_def)

lemma size_product_range:
  fixes s1 s2 :: int
  assumes "2 \<le> s1" "s1 \<le> 65" "2 \<le> s2" "s2 \<le> 65"
  shows "0 \<le> s1 * s2" "s1 * s2 \<le> 32767"
proof -
  show "0 \<le> s1 * s2" using assms by simp
  have "s1 * s2 \<le> 65 * s2" using assms by (intro mult_right_mono) simp_all
  also have "\<dots> \<le> 65 * 65" using assms by simp
  finally show "s1 * s2 \<le> 32767" by simp
qed

lemma pixel_idx_value:
  assumes "2 \<le> size1D" "size1D \<le> 65" "2 \<le> size2D" "size2D \<le> 65" "2 \<le> size3D" "size3D \<le> 65"
  shows "lut_idx tc (index_mul size1D (size1D * size2D)) (pixel_index size1D size2D size3D r g b) =
     tc * grid_node size1D size2D size3D r g b"
proof -
  have s1: "0 \<le> size1D" "size1D \<le> 32767" using assms by simp_all
  note s12 = size_product_range[OF assms(1-4)]
  show ?thesis
    unfolding pixel_index_def lut_idx_value[OF s1 s12] grid_node_def table_index3D_def grid_index_def
      uint_coord_lane'[OF assms(1,2)] uint_coord_lane'[OF assms(3,4)] uint_coord_lane'[OF assms(5,6)]
    by (simp add: SCALE_BITS_def)
qed

lemma grid_node_range:
  assumes "2 \<le> size1D" "size1D \<le> 65" "2 \<le> size2D" "size2D \<le> 65" "2 \<le> size3D" "size3D \<le> 65"
  shows "0 \<le> grid_node size1D size2D size3D r g b"
    and "grid_node size1D size2D size3D r g b + size1D * size2D + size1D + 2 \<le> size1D * size2D * size3D"
proof -
  let ?i = "grid_index size1D (uint r)" and ?j = "grid_index size2D (uint g)"
    and ?k = "grid_index size3D (uint b)"
  note i = grid_index_range[OF assms(1,2), of r]
  note j = grid_index_range[OF assms(3,4), of g]
  note k = grid_index_range[OF assms(5,6), of b]
  note s12 = size_product_range[OF assms(1-4)]
  have n: "grid_node size1D size2D size3D r g b = ?i + ?j * size1D + ?k * (size1D * size2D)"
    by (simp add: grid_node_def table_index3D_def)
  have a: "0 \<le> ?j * size1D" using j(1) assms(1) by simp
  have b: "0 \<le> ?k * (size1D * size2D)" using k(1) s12(1) by simp
  show "0 \<le> grid_node size1D size2D size3D r g b" unfolding n using i(1) a b by linarith
  have "?j * size1D \<le> (size2D - 2) * size1D" using j(2) assms(1) by (intro mult_right_mono) simp_all
  moreover have "?k * (size1D * size2D) \<le> (size3D - 2) * (size1D * size2D)"
    using k(2) s12(1) by (intro mult_right_mono) simp_all
  moreover have "(size1D - 2) + (size2D - 2) * size1D + (size3D - 2) * (size1D * size2D)
      + size1D * size2D + size1D + 2 = size1D * size2D * size3D"
    by (simp add: algebra_simps)
  ultimately show "grid_node size1D size2D size3D r g b + size1D * size2D + size1D + 2
      \<le> size1D * size2D * size3D"
    unfolding n using i(2) by linarith
qed

lemma lut3_value_Some:
  assumes sz: "2 \<le> size1D" "size1D \<le> 65" "2 \<le> size2D" "size2D \<le> 65" "2 \<le> size3D" "size3D \<le> 65"
    and len: "3 * nat (size1D * size2D * size3D) + 2 \<le> length table"
  shows "\<exists>regs. lut3_blend table (3 * grid_node size1D size2D size3D r g b) size1D (size1D * size2D)
            (lut_shift (pixel_index size1D size2D size3D r g b)) = Some regs \<and>
          lut3_value size1D size2D size3D table r g b = Some (lut3_pack (result regs))"
proof -
  let ?n = "grid_node size1D size2D size3D r g b"
  let ?idx = "3 * ?n"
  note n = grid_node_range[OF sz, of r g b]
  note s12 = size_product_range[OF sz(1-4)]
  have up: "?idx + size1D * size2D * 3 + size1D * 3 + 8 \<le> 3 * (size1D * size2D * size3D) + 2"
    using n(2) by linarith
  have "0 \<le> size1D * size2D * size3D" using s12(1) sz(5) by simp
  then have L: "3 * (size1D * size2D * size3D) + 2 \<le> int (length table)"
    using len by linarith
  have nn: "0 \<le> ?idx + 0" "0 \<le> ?idx + size1D * 3" "0 \<le> ?idx + size1D * size2D * 3"
      "0 \<le> ?idx + size1D * size2D * 3 + size1D * 3"
    using n(1) sz(1) s12(1) by simp_all
  have ln: "nat (?idx + 0) + 8 \<le> length table" "nat (?idx + size1D * 3) + 8 \<le> length table"
      "nat (?idx + size1D * size2D * 3) + 8 \<le> length table"
      "nat (?idx + size1D * size2D * 3 + size1D * 3) + 8 \<le> length table"
    using up L n(1) sz(1) s12(1) by linarith+
  have "lut3_blend table ?idx size1D (size1D * size2D)
          (lut_shift (pixel_index size1D size2D size3D r g b)) \<noteq> None"
    unfolding lut3_blend_eq_None mm_loadu_si128_eq_None using nn ln by simp
  then obtain regs where "lut3_blend table ?idx size1D (size1D * size2D)
          (lut_shift (pixel_index size1D size2D size3D r g b)) = Some regs" by blast
  then show ?thesis
    unfolding lut3_value_def Let_def pixel_idx_value[OF sz] by simp
qed

lemma buffers_ok_rows:
  assumes "buffers_ok imOut imIn size1D size2D size3D table" "y < nat (ysize imOut)"
  shows "y < length (image imIn)" "y < length (image imOut)"
    "4 * nat (xsize imOut) + 16 \<le> length (image imIn ! y)"
    "4 * nat (xsize imOut) \<le> length (image imOut ! y)"
proof -
  from assms show a: "y < length (image imIn)" and b: "y < length (image imOut)"
    by (simp_all add: buffers_ok_def)
  have "list_all (\<lambda>r. 4 * nat (xsize imOut) + 16 \<le> length r) (take (nat (ysize imOut)) (image imIn))"
    using assms(1) by (simp add: buffers_ok_def)
  then show "4 * nat (xsize imOut) + 16 \<le> length (image imIn ! y)"
    using a assms(2) by (simp add: list_all_length)
  have "list_all (\<lambda>r. 4 * nat (xsize imOut) \<le> length r) (take (nat (ysize imOut)) (image imOut))"
    using assms(1) by (simp add: buffers_ok_def)
  then show "4 * nat (xsize imOut) \<le> length (image imOut ! y)"
    using b assms(2) by (simp add: list_all_length)
qed

lemma load_si128_start:
  assumes "16 \<le> length ri"
  shows "load_si128 ri 0 = Some (m128i_of_bytes (take 16 (drop (nat 0) ri)))"
proof -
  have "nat 0 + 16 \<le> length ri" using assms by simp
  then show ?thesis by (intro load_si128_Some) simp_all
qed

lemma lut_line_3:
  assumes sz: "2 \<le> size1D" "size1D \<le> 65" "2 \<le> size2D" "size2D \<le> 65" "2 \<le> size3D" "size3D \<le> 65"
    and len: "3 * nat (size1D * size2D * size3D) + 2 \<le> length table"
    and ri: "16 \<le> length ri" and ro: "4 * nat xs \<le> length ro"
  shows "\<exists>v ro'. lut3_value size1D size2D size3D table (ri ! 0) (ri ! 1) (ri ! 2) = Some v \<and>
     lut_line 3 size1D (size1D * size2D) (scale size1D size2D size3D) table ri xs ro =
       (None, ro', row_prefetches ri 0 (nat xs)) \<and>
     length ro' = length ro \<and>
     (\<forall>k<length ro. ro' ! k = (if k < 4 * nat xs then bytes32 v ! (k mod 4) else ro ! k))"
proof -
  note px = load_si128_start[OF ri]
  let ?px = "m128i_of_bytes (take 16 (drop (nat 0) ri))"
  have ix: "lut_index (scale size1D size2D size3D) ?px = pixel_index size1D size2D size3D (ri ! 0) (ri ! 1) (ri ! 2)"
    using lut_index_load[OF px, of size1D size2D size3D] by (simp add: pixel_index_def numeral_2_eq_2)
  obtain regs where regs: "lut3_blend table (3 * grid_node size1D size2D size3D (ri ! 0) (ri ! 1) (ri ! 2))
        size1D (size1D * size2D) (lut_shift (pixel_index size1D size2D size3D (ri ! 0) (ri ! 1) (ri ! 2))) = Some regs"
    and v: "lut3_value size1D size2D size3D table (ri ! 0) (ri ! 1) (ri ! 2) = Some (lut3_pack (result regs))"
    using lut3_value_Some[OF sz len] by blast
  have line: "lut_line 3 size1D (size1D * size2D) (scale size1D size2D size3D) table ri xs ro =
      lut_row 3 size1D (size1D * size2D) (scale size1D size2D size3D) table ri
        (pixel_index size1D size2D size3D (ri ! 0) (ri ! 1) (ri ! 2))
        (3 * grid_node size1D size2D size3D (ri ! 0) (ri ! 1) (ri ! 2)) xs 0 ro []"
    unfolding lut_line_def px option.case ix pixel_idx_value[OF sz] by (rule refl)
  from lut_row_3[OF regs ro, of "scale size1D size2D size3D" ri 0 "[]"]
  show ?thesis unfolding line using v by simp
qed

lemma lut_line_4:
  assumes "tc \<noteq> 3" and ri: "16 \<le> length ri"
  shows "lut_line tc s1 s12 sc table ri xs ro = (None, ro, row_prefetches ri 0 (nat xs))"
  unfolding lut_line_def load_si128_start[OF ri] option.case using lut_row_4[OF assms(1), of s1 s12 sc table ri _ _ xs 0 ro "[]"]
  by simp

lemma ImagingColorLUT3D_linear_traced_pass:
  assumes "lut_checks_pass imOut imIn tc"
  shows "ImagingColorLUT3D_linear_traced imOut imIn tc size1D size2D size3D table =
     (case lut_rows tc size1D (size1D * size2D) (scale size1D size2D size3D) table (image imIn)
             (xsize imOut) (ysize imOut) 0 (image imOut) [] of
        (e, rows, reads) \<Rightarrow> (e, imOut\<lparr>image := rows\<rparr>, reads))"
  using assms unfolding lut_checks_pass_def ImagingColorLUT3D_linear_traced_def Let_def
  by (auto simp: not_less)

lemma ImagingColorLUT3D_linear_pass:
  assumes "lut_checks_pass imOut imIn tc"
  shows "ImagingColorLUT3D_linear imOut imIn tc size1D size2D size3D table =
     (case lut_rows tc size1D (size1D * size2D) (scale size1D size2D size3D) table (image imIn)
             (xsize imOut) (ysize imOut) 0 (image imOut) [] of
        (e, rows, reads) \<Rightarrow> (e, imOut\<lparr>image := rows\<rparr>))"
  unfolding ImagingColorLUT3D_linear_def ImagingColorLUT3D_linear_traced_pass[OF assms]
  by (simp split: prod.splits)

lemma ImagingColorLUT3D_linear_fail:
  assumes "\<not> lut_checks_pass imOut imIn tc"
  shows "ImagingColorLUT3D_linear imOut imIn tc size1D size2D size3D table =
     (if tc < 3 \<or> 4 < tc then (Some ValueError, imOut) else (Some ModeError, imOut))"
    and "snd (snd (ImagingColorLUT3D_linear_traced imOut imIn tc size1D size2D size3D table)) = []"
  using assms
  unfolding lut_checks_pass_def ImagingColorLUT3D_linear_def ImagingColorLUT3D_linear_traced_def Let_def
  by (auto simp: not_less not_le)

lemma ImagingColorLUT3D_linear_fst:
  "fst (ImagingColorLUT3D_linear_traced imOut imIn tc size1D size2D size3D table) =
     fst (ImagingColorLUT3D_linear imOut imIn tc size1D size2D size3D table)"
  "fst (snd (ImagingColorLUT3D_linear_traced imOut imIn tc size1D size2D size3D table)) =
     snd (ImagingColorLUT3D_linear imOut imIn tc size1D size2D size3D table)"
  unfolding ImagingColorLUT3D_linear_def by (simp_all split: prod.splits)

text \<open>
  Three-channel calls.  The accesses whose value is used need 16 readable bytes in every
  input row, the pixel bytes of every output row and two readable elements past the
  grid of the table.
\<close>

lemma transform_3_traced:
  assumes pass: "lut_checks_pass imOut imIn 3"
    and sz: "2 \<le> size1D" "size1D \<le> 65" "2 \<le> size2D" "size2D \<le> 65" "2 \<le> size3D" "size3D \<le> 65"
    and l: "nat (ysize imOut) \<le> length (image imIn)" "nat (ysize imOut) \<le> length (image imOut)"
    and ri: "\<And>y. y < nat (ysize imOut) \<Longrightarrow> 16 \<le> length (image imIn ! y)"
    and ro: "\<And>y. y < nat (ysize imOut) \<Longrightarrow> 4 * nat (xsize imOut) \<le> length (image imOut ! y)"
    and len: "3 * nat (size1D * size2D * size3D) + 2 \<le> length table"
  shows "\<exists>rows. ImagingColorLUT3D_linear_traced imOut imIn 3 size1D size2D size3D table =
       (None, imOut\<lparr>image := rows\<rparr>,
        map (\<lambda>y. row_prefetches (image imIn ! y) 0 (nat (xsize imOut))) [0..<nat (ysize imOut)]) \<and>
     length rows = length (image imOut) \<and>
     (\<forall>y<length (image imOut).
        if y < nat (ysize imOut)
        then \<exists>v. lut3_value size1D size2D size3D table (image imIn ! y ! 0) (image imIn ! y ! 1) (image imIn ! y ! 2) = Some v \<and>
               length (rows ! y) = length (image imOut ! y) \<and>
               (\<forall>k<length (image imOut ! y).
                  rows ! y ! k = (if k < 4 * nat (xsize imOut) then bytes32 v ! (k mod 4) else image imOut ! y ! k))
        else rows ! y = image imOut ! y)"
proof -
  let ?line = "\<lambda>y. lut_line 3 size1D (size1D * size2D) (scale size1D size2D size3D) table
                  (image imIn ! y) (xsize imOut) (image imOut ! y)"
  have line: "\<exists>v ro'. lut3_value size1D size2D size3D table (image imIn ! y ! 0) (image imIn ! y ! 1) (image imIn ! y ! 2) = Some v \<and>
       ?line y = (None, ro', row_prefetches (image imIn ! y) 0 (nat (xsize imOut))) \<and>
       length ro' = length (image imOut ! y) \<and>
       (\<forall>k<length (image imOut ! y). ro' ! k = (if k < 4 * nat (xsize imOut) then bytes32 v ! (k mod 4) else image imOut ! y ! k))"
    if "y < nat (ysize imOut)" for y
    by (rule lut_line_3[OF sz len ri[OF that] ro[OF that]])
  have ok: "\<forall>y'. 0 \<le> y' \<and> y' < nat (ysize imOut) \<longrightarrow> fst (?line y') = None"
    using line by fastforce
  from lut_rows_ok[OF l ok, of "[]"]
  obtain rows where rows: "lut_rows 3 size1D (size1D * size2D) (scale size1D size2D size3D) table (image imIn)
        (xsize imOut) (ysize imOut) 0 (image imOut) [] =
          (None, rows, map (\<lambda>y'. snd (snd (?line y'))) [0..<nat (ysize imOut)])"
    and lr: "length rows = length (image imOut)"
    and nr: "\<forall>y'<length (image imOut). rows ! y' =
       (if 0 \<le> y' \<and> y' < nat (ysize imOut) then fst (snd (?line y')) else image imOut ! y')"
    by auto
  have rd: "map (\<lambda>y'. snd (snd (?line y'))) [0..<nat (ysize imOut)] =
      map (\<lambda>y. row_prefetches (image imIn ! y) 0 (nat (xsize imOut))) [0..<nat (ysize imOut)]"
  proof (rule map_cong[OF refl])
    fix y assume "y \<in> set [0..<nat (ysize imOut)]"
    then have "y < nat (ysize imOut)" by simp
    from line[OF this] show "snd (snd (?line y)) = row_prefetches (image imIn ! y) 0 (nat (xsize imOut))"
      by auto
  qed
  have "if y < nat (ysize imOut)
        then \<exists>v. lut3_value size1D size2D size3D table (image imIn ! y ! 0) (image imIn ! y ! 1) (image imIn ! y ! 2) = Some v \<and>
               length (rows ! y) = length (image imOut ! y) \<and>
               (\<forall>k<length (image imOut ! y).
                  rows ! y ! k = (if k < 4 * nat (xsize imOut) then bytes32 v ! (k mod 4) else image imOut ! y ! k))
        else rows ! y = image imOut ! y" if y: "y < length (image imOut)" for y
  proof (cases "y < nat (ysize imOut)")
    case True
    obtain v ro' where "lut3_value size1D size2D size3D table (image imIn ! y ! 0) (image imIn ! y ! 1) (image imIn ! y ! 2) = Some v"
      "?line y = (None, ro', row_prefetches (image imIn ! y) 0 (nat (xsize imOut)))"
      "length ro' = length (image imOut ! y)"
      "\<forall>k<length (image imOut ! y). ro' ! k = (if k < 4 * nat (xsize imOut) then bytes32 v ! (k mod 4) else image imOut ! y ! k)"
      using line[OF True] by blast
    moreover have "rows ! y = fst (snd (?line y))" using nr y True by simp
    ultimately show ?thesis using True by auto
  next
    case False
    then show ?thesis using nr y by simp
  qed
  then have body: "\<forall>y<length (image imOut).
        if y < nat (ysize imOut)
        then \<exists>v. lut3_value size1D size2D size3D table (image imIn ! y ! 0) (image imIn ! y ! 1) (image imIn ! y ! 2) = Some v \<and>
               length (rows ! y) = length (image imOut ! y) \<and>
               (\<forall>k<length (image imOut ! y).
                  rows ! y ! k = (if k < 4 * nat (xsize imOut) then bytes32 v ! (k mod 4) else image imOut ! y ! k))
        else rows ! y = image imOut ! y" by blast
  have call: "ImagingColorLUT3D_linear_traced imOut imIn 3 size1D size2D size3D table =
      (None, imOut\<lparr>image := rows\<rparr>,
       map (\<lambda>y. row_prefetches (image imIn ! y) 0 (nat (xsize imOut))) [0..<nat (ysize imOut)])"
    unfolding ImagingColorLUT3D_linear_traced_pass[OF pass] rows rd by simp
  from call lr body show ?thesis by blast
qed

lemma transform_3:
  assumes pass: "lut_checks_pass imOut imIn 3"
    and sz: "2 \<le> size1D" "size1D \<le> 65" "2 \<le> size2D" "size2D \<le> 65" "2 \<le> size3D" "size3D \<le> 65"
    and buf: "buffers_ok imOut imIn size1D size2D size3D table"
  shows "\<exists>rows. ImagingColorLUT3D_linear imOut imIn 3 size1D size2D size3D table = (None, imOut\<lparr>image := rows\<rparr>) \<and>
     length rows = length (image imOut) \<and>
     (\<forall>y<length (image imOut).
        if y < nat (ysize imOut)
        then \<exists>v. lut3_value size1D size2D size3D table (image imIn ! y ! 0) (image imIn ! y ! 1) (image imIn ! y ! 2) = Some v \<and>
               length (rows ! y) = length (image imOut ! y) \<and>
               (\<forall>k<length (image imOut ! y).
                  rows ! y ! k = (if k < 4 * nat (xsize imOut) then bytes32 v ! (k mod 4) else image imOut ! y ! k))
        else rows ! y = image imOut ! y)"
proof -
  have l: "nat (ysize imOut) \<le> length (image imIn)" "nat (ysize imOut) \<le> length (image imOut)"
    and len: "3 * nat (size1D * size2D * size3D) + 2 \<le> length table"
    using buf by (simp_all add: buffers_ok_def)
  have ri: "16 \<le> length (image imIn ! y)" if "y < nat (ysize imOut)" for y
    using buffers_ok_rows(3)[OF buf that] by simp
  have ro: "4 * nat (xsize imOut) \<le> length (image imOut ! y)" if "y < nat (ysize imOut)" for y
    by (rule buffers_ok_rows(4)[OF buf that])
  from transform_3_traced[OF pass sz l ri ro len] obtain rows where
    call: "ImagingColorLUT3D_linear_traced imOut imIn 3 size1D size2D size3D table =
       (None, imOut\<lparr>image := rows\<rparr>,
        map (\<lambda>y. row_prefetches (image imIn ! y) 0 (nat (xsize imOut))) [0..<nat (ysize imOut)])"
    and rest: "length rows = length (image imOut) \<and>
     (\<forall>y<length (image imOut).
        if y < nat (ysize imOut)
        then \<exists>v. lut3_value size1D size2D size3D table (image imIn ! y ! 0) (image imIn ! y ! 1) (image imIn ! y ! 2) = Some v \<and>
               length (rows ! y) = length (image imOut ! y) \<and>
               (\<forall>k<length (image imOut ! y).
                  rows ! y ! k = (if k < 4 * nat (xsize imOut) then bytes32 v ! (k mod 4) else image imOut ! y ! k))
        else rows ! y = image imOut ! y)"
    by blast
  have "ImagingColorLUT3D_linear imOut imIn 3 size1D size2D size3D table = (None, imOut\<lparr>image := rows\<rparr>)"
    unfolding ImagingColorLUT3D_linear_def call by simp
  with rest show ?thesis by blast
qed

lemma transform_4:
  assumes pass: "lut_checks_pass imOut imIn tc" and tc: "tc \<noteq> 3"
    and buf: "buffers_ok imOut imIn size1D size2D size3D table"
  shows "ImagingColorLUT3D_linear imOut imIn tc size1D size2D size3D table = (None, imOut)"
proof -
  let ?line = "\<lambda>y. lut_line tc size1D (size1D * size2D) (scale size1D size2D size3D) table
                  (image imIn ! y) (xsize imOut) (image imOut ! y)"
  have line: "?line y = (None, image imOut ! y, row_prefetches (image imIn ! y) 0 (nat (xsize imOut)))"
    if "y < nat (ysize imOut)" for y
  proof -
    have "16 \<le> length (image imIn ! y)" using buffers_ok_rows(3)[OF buf that] by simp
    then show ?thesis by (rule lut_line_4[OF tc])
  qed
  then have ok: "\<forall>y'. 0 \<le> y' \<and> y' < nat (ysize imOut) \<longrightarrow> fst (?line y') = None" by simp
  have l: "nat (ysize imOut) \<le> length (image imIn)" "nat (ysize imOut) \<le> length (image imOut)"
    using buf by (simp_all add: buffers_ok_def)
  from lut_rows_ok[OF l ok, of "[]"]
  obtain rows rd where rows: "lut_rows tc size1D (size1D * size2D) (scale size1D size2D size3D) table (image imIn)
        (xsize imOut) (ysize imOut) 0 (image imOut) [] = (None, rows, rd)"
    and lr: "length rows = length (image imOut)"
    and nr: "\<forall>y'<length (image imOut). rows ! y' =
       (if 0 \<le> y' \<and> y' < nat (ysize imOut) then fst (snd (?line y')) else image imOut ! y')"
    by blast
  have "rows ! y = image imOut ! y" if "y < length (image imOut)" for y
    using nr that line[of y] by simp
  then have "rows = image imOut" using lr by (intro nth_equalityI) simp_all
  then show ?thesis unfolding ImagingColorLUT3D_linear_pass[OF pass] rows by simp
qed

lemma transform_error:
  "fst (ImagingColorLUT3D_linear imOut imIn tc size1D size2D size3D table) = Some e \<Longrightarrow>
     lut_checks_pass imOut imIn tc \<Longrightarrow> e = MemoryFault"
proof -
  assume e: "fst (ImagingColorLUT3D_linear imOut imIn tc size1D size2D size3D table) = Some e"
    and pass: "lut_checks_pass imOut imIn tc"
  obtain e' rows rd where r: "lut_rows tc size1D (size1D * size2D) (scale size1D size2D size3D) table (image imIn)
        (xsize imOut) (ysize imOut) 0 (image imOut) [] = (e', rows, rd)"
    by (cases "lut_rows tc size1D (size1D * size2D) (scale size1D size2D size3D) table (image imIn)
        (xsize imOut) (ysize imOut) 0 (image imOut) []")
  with e have "e' = Some e" unfolding ImagingColorLUT3D_linear_pass[OF pass] by simp
  then have "fst (lut_rows tc size1D (size1D * size2D) (scale size1D size2D size3D) table (image imIn)
        (xsize imOut) (ysize imOut) 0 (image imOut) []) = Some e" using r by simp
  then show "e = MemoryFault" by (rule lut_rows_error)
qed

text \<open>The prefetches of a call that returns the output image: every row has one per
  pixel, at the byte offsets \<open>4, 8, \<dots>, 4 * xsize\<close>.\<close>

lemma transform_reads:
  assumes ok: "fst (ImagingColorLUT3D_linear_traced imOut imIn tc size1D size2D size3D table) = None"
  shows "snd (snd (ImagingColorLUT3D_linear_traced imOut imIn tc size1D size2D size3D table)) =
     map (\<lambda>y. row_prefetches (image imIn ! y) 0 (nat (xsize imOut))) [0..<nat (ysize imOut)]"
    and "y < nat (ysize imOut) \<Longrightarrow> y < length (image imIn) \<and> 16 \<le> length (image imIn ! y)"
proof -
  let ?line = "\<lambda>y. lut_line tc size1D (size1D * size2D) (scale size1D size2D size3D) table
                  (image imIn ! y) (xsize imOut) (image imOut ! y)"
  let ?rows = "lut_rows tc size1D (size1D * size2D) (scale size1D size2D size3D) table (image imIn)
        (xsize imOut) (ysize imOut) 0 (image imOut) []"
  have pass: "lut_checks_pass imOut imIn tc"
  proof (rule ccontr)
    assume "\<not> lut_checks_pass imOut imIn tc"
    from ImagingColorLUT3D_linear_fail(1)[OF this, of size1D size2D size3D table] ok
    show False unfolding ImagingColorLUT3D_linear_fst by (simp split: if_splits)
  qed
  have r: "fst ?rows = None"
    using ok unfolding ImagingColorLUT3D_linear_traced_pass[OF pass] by (simp split: prod.splits)
  have d: "y' < length (image imIn) \<and> y' < length (image imOut) \<and> fst (?line y') = None"
    if "y' < nat (ysize imOut)" for y'
    using lut_rows_None_D[OF r _ that] by simp
  have l: "nat (ysize imOut) \<le> length (image imIn)" "nat (ysize imOut) \<le> length (image imOut)"
  proof -
    show "nat (ysize imOut) \<le> length (image imIn)"
    proof (cases "nat (ysize imOut)")
      case (Suc m)
      then show ?thesis using d[of m] by simp
    qed simp
    show "nat (ysize imOut) \<le> length (image imOut)"
    proof (cases "nat (ysize imOut)")
      case (Suc m)
      then show ?thesis using d[of m] by simp
    qed simp
  qed
  have okl: "\<forall>y'. 0 \<le> y' \<and> y' < nat (ysize imOut) \<longrightarrow> fst (?line y') = None" using d by simp
  from lut_rows_ok[OF l okl, of "[]"]
  obtain rows where rows: "?rows = (None, rows, map (\<lambda>y'. snd (snd (?line y'))) [0..<nat (ysize imOut)])"
    by auto
  have rd: "map (\<lambda>y'. snd (snd (?line y'))) [0..<nat (ysize imOut)] =
      map (\<lambda>y. row_prefetches (image imIn ! y) 0 (nat (xsize imOut))) [0..<nat (ysize imOut)]"
  proof (rule map_cong[OF refl])
    fix y assume "y \<in> set [0..<nat (ysize imOut)]"
    then have "fst (?line y) = None" using d by simp
    from lut_line_reads[OF this]
    show "snd (snd (?line y)) = row_prefetches (image imIn ! y) 0 (nat (xsize imOut))" by simp
  qed
  show "snd (snd (ImagingColorLUT3D_linear_traced imOut imIn tc size1D size2D size3D table)) =
     map (\<lambda>y. row_prefetches (image imIn ! y) 0 (nat (xsize imOut))) [0..<nat (ysize imOut)]"
    unfolding ImagingColorLUT3D_linear_traced_pass[OF pass] rows rd by simp
  show "y < length (image imIn) \<and> 16 \<le> length (image imIn ! y)" if y: "y < nat (ysize imOut)"
  proof -
    from d[OF y] have "fst (?line y) = None" by simp
    from lut_line_reads[OF this] obtain px where "load_si128 (image imIn ! y) 0 = Some px" by blast
    then have "16 \<le> length (image imIn ! y)"
      using load_si128_eq_None[of "image imIn ! y" 0] by (cases "16 \<le> length (image imIn ! y)") auto
    with d[OF y] show ?thesis by simp
  qed
qed

lemma lane_M128:
  "lane (M128 a0 a1 a2 a3) 0 = a0" "lane (M128 a0 a1 a2 a3) 1 = a1" "lane (M128 a0 a1 a2 a3) 2 = a2"
  "lane (M128 a0 a1 a2 a3) (Suc 0) = a1"
  by (simp_all add: lane_def)

lemma lerp15_in_range:
  assumes "0 \<le> a" "a \<le> 16320" "0 \<le> b" "b \<le> 16320" "0 \<le> f" "f \<le> 32767"
  shows "0 \<le> lerp15 a b f" "lerp15 a b f \<le> 16320"
  using lerp15_bounds[OF assms] by simp_all

lemma sint_corner16:
  "sint (corner16 table off c (shift_lane x)) =
     lerp15 (sint (table ! (off + c))) (sint (table ! (off + 3 + c))) (uint (frac_lane x))"
  by (simp only: corner16_def sint_blend16)

text \<open>The values held by the lanes of the blend registers, for one channel.\<close>

lemma lut3_blend_values:
  assumes regs: "lut3_blend table idx size1D size1D_2D (lut_shift (M128 x0 x1 x2 x3)) = Some regs"
    and c: "c < 3"
  defines "f1 \<equiv> uint (frac_lane x0)" and "f2 \<equiv> uint (frac_lane x1)" and "f3 \<equiv> uint (frac_lane x2)"
  defines "ll \<equiv> sint (lo16 (lane (leftleft regs) c))" and "lr \<equiv> sint (hi16 (lane (leftright regs) c))"
    and "rl \<equiv> sint (lo16 (lane (rightleft regs) c))" and "rr \<equiv> sint (hi16 (lane (rightright regs) c))"
    and "l \<equiv> sint (lo16 (lane (left regs) c))" and "r \<equiv> sint (hi16 (lane (right regs) c))"
  shows "ll = lerp15 (sint (table ! (nat (idx + 0) + c))) (sint (table ! (nat (idx + 0) + 3 + c))) f1"
    and "lr = lerp15 (sint (table ! (nat (idx + size1D * 3) + c)))
                     (sint (table ! (nat (idx + size1D * 3) + 3 + c))) f1"
    and "rl = lerp15 (sint (table ! (nat (idx + size1D_2D * 3) + c)))
                     (sint (table ! (nat (idx + size1D_2D * 3) + 3 + c))) f1"
    and "rr = lerp15 (sint (table ! (nat (idx + size1D_2D * 3 + size1D * 3) + c)))
                     (sint (table ! (nat (idx + size1D_2D * 3 + size1D * 3) + 3 + c))) f1"
    and "l = lerp15 ll lr f2" and "r = lerp15 rl rr f2"
    and "sint (lane (result regs) c) = l * (32767 - f3) + r * f3"
proof -
  note d = lut3_blend_Some_D[OF regs]
  have nn: "0 \<le> idx + 0" "0 \<le> idx + size1D * 3" "0 \<le> idx + size1D_2D * 3"
      "0 \<le> idx + size1D_2D * 3 + size1D * 3" using d by simp_all
  have ln: "nat (idx + 0) + 8 \<le> length table" "nat (idx + size1D * 3) + 8 \<le> length table"
      "nat (idx + size1D_2D * 3) + 8 \<le> length table"
      "nat (idx + size1D_2D * 3 + size1D * 3) + 8 \<le> length table" using d by simp_all
  have r: "regs = the (lut3_blend table idx size1D size1D_2D (lut_shift (M128 x0 x1 x2 x3)))"
    using regs by simp
  note e = r[unfolded lut_shift_lanes lut3_blend_lanes[OF nn ln] option.sel]
  from c consider "c = 0" | "c = 1" | "c = 2" by linarith
  then have "ll = lerp15 (sint (table ! (nat (idx + 0) + c))) (sint (table ! (nat (idx + 0) + 3 + c))) f1
    \<and> lr = lerp15 (sint (table ! (nat (idx + size1D * 3) + c)))
                     (sint (table ! (nat (idx + size1D * 3) + 3 + c))) f1
    \<and> rl = lerp15 (sint (table ! (nat (idx + size1D_2D * 3) + c)))
                     (sint (table ! (nat (idx + size1D_2D * 3) + 3 + c))) f1
    \<and> rr = lerp15 (sint (table ! (nat (idx + size1D_2D * 3 + size1D * 3) + c)))
                     (sint (table ! (nat (idx + size1D_2D * 3 + size1D * 3) + 3 + c))) f1
    \<and> l = lerp15 ll lr f2 \<and> r = lerp15 rl rr f2
    \<and> sint (lane (result regs) c) = l * (32767 - f3) + r * f3"
  proof cases
    case 1
    show ?thesis
      unfolding ll_def lr_def rl_def rr_def l_def r_def f1_def f2_def f3_def 1
      by (simp add: e lane_M128 lo16_cat16 hi16_cat16 sint_corner16 sint_blend16 sint_madd16_shift)
  next
    case 2
    show ?thesis
      unfolding ll_def lr_def rl_def rr_def l_def r_def f1_def f2_def f3_def 2
      by (simp add: e lane_M128 lo16_cat16 hi16_cat16 sint_corner16 sint_blend16 sint_madd16_shift)
  next
    case 3
    show ?thesis
      unfolding ll_def lr_def rl_def rr_def l_def r_def f1_def f2_def f3_def 3
      by (simp add: e lane_M128 lo16_cat16 hi16_cat16 sint_corner16 sint_blend16 sint_madd16_shift)
  qed
  then show "ll = lerp15 (sint (table ! (nat (idx + 0) + c))) (sint (table ! (nat (idx + 0) + 3 + c))) f1"
    and "lr = lerp15 (sint (table ! (nat (idx + size1D * 3) + c)))
                     (sint (table ! (nat (idx + size1D * 3) + 3 + c))) f1"
    and "rl = lerp15 (sint (table ! (nat (idx + size1D_2D * 3) + c)))
                     (sint (table ! (nat (idx + size1D_2D * 3) + 3 + c))) f1"
    and "rr = lerp15 (sint (table ! (nat (idx + size1D_2D * 3 + size1D * 3) + c)))
                     (sint (table ! (nat (idx + size1D_2D * 3 + size1D * 3) + 3 + c))) f1"
    and "l = lerp15 ll lr f2" and "r = lerp15 rl rr f2"
    and "sint (lane (result regs) c) = l * (32767 - f3) + r * f3"
    by blast+
qed

lemma lut_frac_lane:
  "lane (lut_frac (M128 x0 x1 x2 x3)) 0 = frac_lane x0"
  "lane (lut_frac (M128 x0 x1 x2 x3)) 1 = frac_lane x1"
  "lane (lut_frac (M128 x0 x1 x2 x3)) 2 = frac_lane x2"
  by (simp_all add: lut_frac_lanes lane_M128)

lemma lut3_pixel_biased:
  assumes "lut3_pixel table idx size1D size1D_2D index = Some v"
  shows "take 3 (bytes32 v) =
     scalar_lut3_biased table idx size1D size1D_2D
       (lo16 (lane (lut_frac index) 0)) (lo16 (lane (lut_frac index) 1)) (lo16 (lane (lut_frac index) 2))"
proof (cases index)
  case (M128 x0 x1 x2 x3)
  from assms obtain regs where
    regs: "lut3_blend table idx size1D size1D_2D (lut_shift (M128 x0 x1 x2 x3)) = Some regs"
    and v: "v = lut3_pack (result regs)"
    unfolding lut3_pixel_def M128 by auto
  show ?thesis unfolding v M128 lut_frac_lane lo16_def using lut3_kernel_biased[OF regs] .
qed

lemma lut3_pixel_Some:
  assumes "0 \<le> idx" "0 \<le> size1D" "0 \<le> size1D_2D"
    and "nat idx + 3 * nat size1D_2D + 3 * nat size1D + 8 \<le> length table"
  shows "\<exists>v. lut3_pixel table idx size1D size1D_2D index = Some v"
proof -
  have "lut3_blend table idx size1D size1D_2D (lut_shift index) \<noteq> None"
    unfolding lut3_blend_eq_None mm_loadu_si128_eq_None
    using assms by (simp add: nat_add_distrib nat_mult_distrib)
  then show ?thesis unfolding lut3_pixel_def by auto
qed

lemma lut_index_pixel:
  "lut_index (scale size1D size2D size3D) px =
     pixel_index size1D size2D size3D (m128i_bytes px ! 0) (m128i_bytes px ! 1) (m128i_bytes px ! 2)"
  by (cases px)
     (simp add: lut_index_def scale_def mm_set_epi32_def mm_mullo_epi32_def pixel_index_def
        coord_lane_def bytes32_def)

lemma lut3_value_pixel:
  assumes "2 \<le> size1D" "size1D \<le> 65" "2 \<le> size2D" "size2D \<le> 65" "2 \<le> size3D" "size3D \<le> 65"
  shows "lut3_value size1D size2D size3D table r g b =
     lut3_pixel table (3 * grid_node size1D size2D size3D r g b) size1D (size1D * size2D)
       (pixel_index size1D size2D size3D r g b)"
  unfolding lut3_value_def lut3_pixel_def Let_def pixel_idx_value[OF assms] by (rule refl)

lemma word16_sint_zero: "sint (w :: 16 word) = 0 \<Longrightarrow> w = 0"
proof -
  assume "sint w = 0"
  moreover have "w = word_of_int (sint w)" by simp
  ultimately show "w = 0" by simp
qed

lemma blend16_zero: "blend16 0 0 (shift_lane x) = 0"
  by (rule word16_sint_zero) (simp add: sint_blend16 lerp15_def)

lemma lut3_pixel_alpha:
  assumes "lut3_pixel table idx size1D size1D_2D index = Some v"
  shows "bytes32 v ! 3 = 0"
proof (cases index)
  case (M128 x0 x1 x2 x3)
  from assms obtain regs where
    regs: "lut3_blend table idx size1D size1D_2D (lut_shift (M128 x0 x1 x2 x3)) = Some regs"
    and v: "v = lut3_pack (result regs)"
    unfolding lut3_pixel_def M128 by auto
  note d = lut3_blend_Some_D[OF regs]
  have nn: "0 \<le> idx + 0" "0 \<le> idx + size1D * 3" "0 \<le> idx + size1D_2D * 3"
      "0 \<le> idx + size1D_2D * 3 + size1D * 3" using d by simp_all
  have ln: "nat (idx + 0) + 8 \<le> length table" "nat (idx + size1D * 3) + 8 \<le> length table"
      "nat (idx + size1D_2D * 3) + 8 \<le> length table"
      "nat (idx + size1D_2D * 3 + size1D * 3) + 8 \<le> length table" using d by simp_all
  have r: "regs = the (lut3_blend table idx size1D size1D_2D (lut_shift (M128 x0 x1 x2 x3)))"
    using regs by simp
  note e = r[unfolded lut_shift_lanes lut3_blend_lanes[OF nn ln] option.sel]
  have "bytes32 v ! 3 = pack_lane (madd16 (cat16 0 0) (shift_lane x2))"
    unfolding v by (simp add: e lut3_pack_bytes blend16_zero)
  also have "\<dots> = clip8 (sint (interpolate1_biased 0 0 (ucast (frac_lane x2))))"
    by (rule pack_biased)
  also have "\<dots> = 0"
    by (simp add: interpolate1_biased_lerp lerp15_def clip8_def clip8_lookups_def
        PRECISION_ROUNDING_def PRECISION_BITS_def)
  finally show ?thesis .
qed

lemma lo16_frac_lane:
  assumes "2 \<le> sz" "sz \<le> 65"
  shows "lo16 (frac_lane (coord_lane sz v)) = word_of_int (grid_frac sz (uint v))"
proof -
  have "lo16 (frac_lane (coord_lane sz v)) = word_of_int (uint (frac_lane (coord_lane sz v)))"
    by (simp add: lo16_def)
  then show ?thesis by (simp only: frac_lane_value[OF assms])
qed

text \<open>
  The bytes stored for an image: in row \<open>y\<close> every pixel receives the value computed
  from the first pixel of the input row.
\<close>

lemma transform_3_pixel:
  assumes pass: "lut_checks_pass imOut imIn 3"
    and sz: "2 \<le> size1D" "size1D \<le> 65" "2 \<le> size2D" "size2D \<le> 65" "2 \<le> size3D" "size3D \<le> 65"
    and buf: "buffers_ok imOut imIn size1D size2D size3D table"
    and y: "y < nat (ysize imOut)" and x: "x < nat (xsize imOut)"
  defines "r \<equiv> image imIn ! y ! 0" and "g \<equiv> image imIn ! y ! 1" and "b \<equiv> image imIn ! y ! 2"
  defines "res \<equiv> ImagingColorLUT3D_linear imOut imIn 3 size1D size2D size3D table"
  shows "fst res = None"
    and "c < 3 \<Longrightarrow> image (snd res) ! y ! (4 * x + c) =
       scalar_lut3_biased table (3 * grid_node size1D size2D size3D r g b) size1D (size1D * size2D)
         (word_of_int (grid_frac size1D (uint r))) (word_of_int (grid_frac size2D (uint g)))
         (word_of_int (grid_frac size3D (uint b))) ! c"
    and "image (snd res) ! y ! (4 * x + 3) = 0"
proof -
  from transform_3[OF pass sz buf] obtain rows where
    call: "res = (None, imOut\<lparr>image := rows\<rparr>)"
    and body: "\<forall>y<length (image imOut).
        if y < nat (ysize imOut)
        then \<exists>v. lut3_value size1D size2D size3D table (image imIn ! y ! 0) (image imIn ! y ! 1) (image imIn ! y ! 2) = Some v \<and>
               length (rows ! y) = length (image imOut ! y) \<and>
               (\<forall>k<length (image imOut ! y).
                  rows ! y ! k = (if k < 4 * nat (xsize imOut) then bytes32 v ! (k mod 4) else image imOut ! y ! k))
        else rows ! y = image imOut ! y"
    unfolding res_def by blast
  show "fst res = None" using call by simp
  note rw = buffers_ok_rows[OF buf y]
  from body[rule_format, OF rw(2)] y obtain v where
    v: "lut3_value size1D size2D size3D table r g b = Some v"
    and nth: "\<forall>k<length (image imOut ! y).
        rows ! y ! k = (if k < 4 * nat (xsize imOut) then bytes32 v ! (k mod 4) else image imOut ! y ! k)"
    unfolding r_def g_def b_def by auto
  have px: "lut3_pixel table (3 * grid_node size1D size2D size3D r g b) size1D (size1D * size2D)
       (pixel_index size1D size2D size3D r g b) = Some v"
    using v unfolding lut3_value_pixel[OF sz] .
  have byte: "image (snd res) ! y ! (4 * x + k) = bytes32 v ! k" if "k < 4" for k
  proof -
    have lt: "4 * x + k < 4 * nat (xsize imOut)" using x that by linarith
    then have "4 * x + k < length (image imOut ! y)" using rw(4) by linarith
    then have "rows ! y ! (4 * x + k) = bytes32 v ! ((4 * x + k) mod 4)" using nth lt by simp
    moreover have "(4 * x + k) mod 4 = k" using that by simp
    ultimately show ?thesis using call by simp
  qed
  show "image (snd res) ! y ! (4 * x + 3) = 0"
    using byte[of 3] lut3_pixel_alpha[OF px] by simp
  show "image (snd res) ! y ! (4 * x + c) =
       scalar_lut3_biased table (3 * grid_node size1D size2D size3D r g b) size1D (size1D * size2D)
         (word_of_int (grid_frac size1D (uint r))) (word_of_int (grid_frac size2D (uint g)))
         (word_of_int (grid_frac size3D (uint b))) ! c" if c: "c < 3"
  proof -
    have "bytes32 v ! c = take 3 (bytes32 v) ! c" using c by simp
    also have "take 3 (bytes32 v) = scalar_lut3_biased table (3 * grid_node size1D size2D size3D r g b)
         size1D (size1D * size2D)
         (word_of_int (grid_frac size1D (uint r))) (word_of_int (grid_frac size2D (uint g)))
         (word_of_int (grid_frac size3D (uint b)))"
      unfolding lut3_pixel_biased[OF px] pixel_index_def lut_frac_lane
        lo16_frac_lane[OF sz(1,2)] lo16_frac_lane[OF sz(3,4)] lo16_frac_lane[OF sz(5,6)]
      by (rule refl)
    finally show ?thesis using byte[of c] c by simp
  qed
qed

text \<open>A blend with fraction 0 multiplies by \<open>32767 / 32768\<close>: it decrements a positive value.\<close>

lemma lerp15_zero: "lerp15 a b 0 = (a * 32767) div 32768"
  by (simp add: lerp15_def)

lemma dec_pos:
  fixes x :: int
  assumes "1 \<le> x" "x \<le> 32768"
  shows "(x * 32767) div 32768 = x - 1"
proof (rule int_div_pos_eq)
  show "x * 32767 = 32768 * (x - 1) + (32768 - x)" by simp
  show "0 \<le> 32768 - x" using assms by simp
  show "32768 - x < 32768" using assms by simp
qed

lemma dec_mono:
  fixes x y :: int
  assumes "x \<le> y"
  shows "(x * 32767) div 32768 \<le> (y * 32767) div 32768"
  using assms by (intro zdiv_mono1) simp_all

lemma dec_range:
  fixes x :: int
  assumes "- 32768 \<le> x" "x \<le> 32767"
  shows "- 32768 \<le> (x * 32767) div 32768" "(x * 32767) div 32768 \<le> 32767"
proof -
  have "(- 32768 * 32767) div 32768 \<le> (x * 32767) div 32768" using assms(1) by (rule dec_mono)
  then show "- 32768 \<le> (x * 32767) div 32768" by simp
  have "(x * 32767) div 32768 \<le> (32767 * 32767) div 32768" using assms(2) by (rule dec_mono)
  then show "(x * 32767) div 32768 \<le> 32767" by simp
qed

lemma clip8_low: "z \<le> 31 \<Longrightarrow> clip8 z = 0"
proof -
  assume "z \<le> 31"
  then have "(z + 32) div 64 \<le> 0" by simp
  then show ?thesis
    by (auto simp: clip8_def clip8_lookups_def PRECISION_ROUNDING_def PRECISION_BITS_def)
qed

lemma clip8_dec3:
  fixes t :: int
  assumes "- 32768 \<le> t" "t \<le> 32767"
  shows "clip8 ((((t * 32767) div 32768 * 32767) div 32768 * 32767) div 32768) = clip8 (t - 3)"
proof (cases "3 \<le> t")
  case True
  then have 1: "(t * 32767) div 32768 = t - 1" using assms by (intro dec_pos) simp_all
  have 2: "((t - 1) * 32767) div 32768 = t - 1 - 1" using True assms by (intro dec_pos) simp_all
  have 3: "((t - 1 - 1) * 32767) div 32768 = t - 1 - 1 - 1" using True assms by (intro dec_pos) simp_all
  show ?thesis unfolding 1 2 3 by simp
next
  case False
  then have t: "t \<le> 2" by simp
  have "(t * 32767) div 32768 \<le> (2 * 32767) div 32768" using t by (rule dec_mono)
  then have 1: "(t * 32767) div 32768 \<le> 1" by simp
  have "((t * 32767) div 32768 * 32767) div 32768 \<le> (1 * 32767) div 32768" using 1 by (rule dec_mono)
  then have 2: "((t * 32767) div 32768 * 32767) div 32768 \<le> 0" by simp
  have "(((t * 32767) div 32768 * 32767) div 32768 * 32767) div 32768 \<le> (0 * 32767) div 32768"
    using 2 by (rule dec_mono)
  then have 3: "(((t * 32767) div 32768 * 32767) div 32768 * 32767) div 32768 \<le> 31" by simp
  have "t - 3 \<le> 31" using t by simp
  then show ?thesis using 3 by (simp add: clip8_low)
qed

lemma interpolate1_biased_zero:
  "interpolate1_biased a b 0 = word_of_int ((sint a * 32767) div 32768)"
  by (simp add: interpolate1_biased_def SHIFT_BITS_def)

lemma sint_interpolate1_biased_zero:
  "sint (interpolate1_biased a b 0) = (sint a * 32767) div 32768"
  unfolding interpolate1_biased_zero
  using dec_range[of "sint a"] sint16_range[of a] by (intro sint16_of_int) simp_all

lemma clip8_biased_zero3:
  "clip8 (sint (interpolate1_biased (interpolate1_biased (interpolate1_biased a b1 0) b2 0) b3 0))
     = clip8 (sint a - 3)"
  unfolding sint_interpolate1_biased_zero
  using sint16_range[of a] by (intro clip8_dec3) simp_all

lemma scalar_lut3_biased_zero:
  assumes "c < 3" "0 \<le> idx"
  shows "scalar_lut3_biased table idx size1D size1D_2D 0 0 0 ! c = clip8 (sint (table ! nat (idx + int c)) - 3)"
proof -
  from assms(1) consider "c = 0" | "c = 1" | "c = 2" by linarith
  then show ?thesis
  proof cases
    case 1
    then show ?thesis
      by (simp add: scalar_lut3_biased_def table3_def clip8_biased_zero3)
  next
    case 2
    then show ?thesis
      by (simp add: scalar_lut3_biased_def table3_def clip8_biased_zero3)
  next
    case 3
    then show ?thesis
      by (simp add: scalar_lut3_biased_def table3_def clip8_biased_zero3)
  qed
qed

lemma scalar_lut3_biased_const32:
  "scalar_lut3_biased (replicate 26 32) 0 2 4 0 0 0 = [0, 0, 0]"
proof -
  have t: "table3 (replicate 26 32) k = (32, 32, 32)" if "0 \<le> k" "k \<le> 23" for k
    using that by (simp add: table3_def)
  have b: "interpolate1_biased 32 32 0 = 31" "interpolate1_biased 31 31 0 = 30"
      "interpolate1_biased 30 30 0 = 29"
    by (simp_all add: interpolate1_biased_def SHIFT_BITS_def)
  have c: "clip8 29 = 0"
    by (simp add: clip8_def clip8_lookups_def PRECISION_ROUNDING_def PRECISION_BITS_def)
  show ?thesis by (simp add: scalar_lut3_biased_def t b c)
qed

lemma grid_zero:
  "grid_index sz 0 = 0" "grid_frac sz 0 = 0" "grid_node s1 s2 s3 0 0 0 = 0"
  by (simp_all add: grid_index_def grid_frac_def grid_node_def grid_coord_def table_index3D_def)

text \<open>
  Channel values on a grid node.  The value \<open>v\<close> lies on a node of an axis of size \<open>sz\<close>
  when \<open>v * (sz - 1)\<close> is a multiple of 255; the node is \<open>v * (sz - 1) div 255\<close>.  The
  scale is truncated, so the fixed-point coordinate of such a value other than 0 falls
  short of the node by 1 to 254 units of \<open>2 ^ - SCALE_BITS\<close>: its base index is the node
  before, and its fractional weight is within 32 of \<open>2 ^ SHIFT_BITS\<close>.
\<close>

lemma grid_coord_on_node:
  fixes v sz :: int
  assumes sz: "2 \<le> sz" "sz \<le> 65" and v: "0 < v" "v \<le> 255"
    and node: "v * (sz - 1) mod 255 = 0"
  shows "(v * (sz - 1) div 255) * 262144 - 254 \<le> grid_coord sz v"
    and "grid_coord sz v < (v * (sz - 1) div 255) * 262144"
proof -
  define s where "s = lut_scale sz"
  define N where "N = (sz - 1) * 262144"
  define k where "k = v * (sz - 1) div 255"
  have s1: "255 * s < N" using lut_scale_strict[OF sz] unfolding s_def N_def by simp
  have "s = N div 255" unfolding s_def N_def using sz by (simp add: lut_scale_eq)
  moreover have "N = 255 * (N div 255) + N mod 255" by simp
  moreover have "N mod 255 \<le> 254" using pos_mod_bound[of 255 N] by simp
  ultimately have s2: "N - 254 \<le> 255 * s" by linarith
  have vk: "v * (sz - 1) = 255 * k"
    unfolding k_def using node by (simp add: mod_0_imp_dvd)
  have vN: "v * N = 255 * (k * 262144)"
  proof -
    have "v * N = (v * (sz - 1)) * 262144" unfolding N_def by simp
    then show ?thesis unfolding vk by simp
  qed
  have up: "v * (255 * s) < v * N" using s1 v(1) by (rule mult_strict_left_mono)
  have "v * (N - 254) \<le> v * (255 * s)" using s2 v(1) by (intro mult_left_mono) simp_all
  then have lo: "v * N - v * 254 \<le> v * (255 * s)" by (simp add: right_diff_distrib)
  have c: "v * (255 * s) = 255 * grid_coord sz v" unfolding grid_coord_def s_def by simp
  have "v * 254 \<le> 255 * 254" using v(2) by simp
  with lo have "255 * (k * 262144 - 254) \<le> 255 * grid_coord sz v" unfolding vN c by simp
  then show "(v * (sz - 1) div 255) * 262144 - 254 \<le> grid_coord sz v" unfolding k_def by simp
  from up have "255 * grid_coord sz v < 255 * (k * 262144)" unfolding vN c .
  then show "grid_coord sz v < (v * (sz - 1) div 255) * 262144" unfolding k_def by simp
qed

lemma grid_on_node:
  fixes v sz :: int
  assumes sz: "2 \<le> sz" "sz \<le> 65" and v: "0 < v" "v \<le> 255"
    and node: "v * (sz - 1) mod 255 = 0"
  shows "grid_index sz v = v * (sz - 1) div 255 - 1"
    and "32736 \<le> grid_frac sz v" and "grid_frac sz v \<le> 32767"
proof -
  define k where "k = v * (sz - 1) div 255"
  define d where "d = k * 262144 - grid_coord sz v"
  have d: "1 \<le> d" "d \<le> 254"
    using grid_coord_on_node[OF assms] unfolding d_def k_def by simp_all
  have c: "grid_coord sz v = 262144 * (k - 1) + (262144 - d)" unfolding d_def by simp
  have q: "grid_coord sz v div 262144 = k - 1"
    using d by (intro int_div_pos_eq[OF c]) simp_all
  have m: "grid_coord sz v mod 262144 = 262144 - d"
    using d by (intro int_mod_pos_eq[OF c]) simp_all
  have "grid_index sz v = grid_coord sz v div 262144" by (simp add: grid_index_def SCALE_BITS_def)
  then show "grid_index sz v = v * (sz - 1) div 255 - 1" unfolding q k_def .
  have f: "grid_frac sz v = (262144 - d) div 8"
    unfolding grid_frac_def by (simp add: SCALE_BITS_def SHIFT_BITS_def m)
  show "32736 \<le> grid_frac sz v" "grid_frac sz v \<le> 32767" unfolding f using d by simp_all
qed

lemma node_frac_range: "node_frac f \<Longrightarrow> 0 \<le> f \<and> f \<le> 32767"
  by (auto simp: node_frac_def)

lemma grid_frac_node:
  fixes v :: "8 word"
  assumes sz: "2 \<le> sz" "sz \<le> 65" and node: "uint v * (sz - 1) mod 255 = 0"
  shows "node_frac (grid_frac sz (uint v))"
    and "grid_index sz (uint v) + node_operand (grid_frac sz (uint v)) 0 1 = uint v * (sz - 1) div 255"
proof -
  have r: "0 \<le> uint v" "uint v \<le> 255" by (rule uint8_range)+
  show "node_frac (grid_frac sz (uint v))"
  proof (cases "uint v = 0")
    case True
    then show ?thesis by (simp add: grid_zero node_frac_def)
  next
    case False
    with r(1) have "0 < uint v" by linarith
    from grid_on_node(2,3)[OF sz this r(2) node] show ?thesis by (simp add: node_frac_def)
  qed
  show "grid_index sz (uint v) + node_operand (grid_frac sz (uint v)) 0 1 = uint v * (sz - 1) div 255"
  proof (cases "uint v = 0")
    case True
    then show ?thesis by (simp add: grid_zero node_operand_def)
  next
    case False
    with r(1) have "0 < uint v" by linarith
    from grid_on_node[OF sz this r(2) node] show ?thesis by (simp add: node_operand_def)
  qed
qed

text \<open>One blend with the weight of a value on a node: the result is the selected
  operand, up to 63 units, and up to 16 units when both operands lie in \<open>[0, 16320]\<close>.\<close>

lemma lerp15_split:
  "lerp15 a b f = b + (a * (32767 - f) - b * (32768 - f)) div 32768"
proof -
  have "a * (32767 - f) + b * f = (a * (32767 - f) - b * (32768 - f)) + b * 32768"
    by (simp add: algebra_simps)
  then show ?thesis unfolding lerp15_def by simp
qed

lemma lerp15_node:
  assumes a: "- 32768 \<le> a" "a \<le> 32767" and b: "- 32768 \<le> b" "b \<le> 32767"
    and f: "node_frac f"
  shows "\<bar>lerp15 a b f - node_operand f a b\<bar> \<le> 63"
proof (cases "f = 0")
  case True
  have "a * 32767 = - a + a * 32768" by simp
  then have "(a * 32767) div 32768 = a + (- a) div 32768" by simp
  moreover have "- 1 \<le> (- a) div 32768" "(- a) div 32768 \<le> 1" using a by simp_all
  ultimately show ?thesis using True by (simp add: lerp15_zero node_operand_def)
next
  case False
  then have e: "32736 \<le> f" "f \<le> 32767" using f by (simp_all add: node_frac_def)
  have "\<bar>a * (32767 - f)\<bar> = \<bar>a\<bar> * \<bar>32767 - f\<bar>" by (rule abs_mult)
  also have "\<dots> \<le> 32768 * 31" using a e by (intro mult_mono) simp_all
  finally have 1: "\<bar>a * (32767 - f)\<bar> \<le> 1015808" by simp
  have "\<bar>b * (32768 - f)\<bar> = \<bar>b\<bar> * \<bar>32768 - f\<bar>" by (rule abs_mult)
  also have "\<dots> \<le> 32768 * 32" using b e by (intro mult_mono) simp_all
  finally have 2: "\<bar>b * (32768 - f)\<bar> \<le> 1048576" by simp
  let ?n = "a * (32767 - f) - b * (32768 - f)"
  have n: "- 2064384 \<le> ?n" "?n \<le> 2064384" using 1 2 by linarith+
  have "(- 2064384) div 32768 \<le> ?n div 32768" using n(1) by (intro zdiv_mono1) simp_all
  moreover have "?n div 32768 \<le> 2064384 div 32768" using n(2) by (intro zdiv_mono1) simp_all
  ultimately have "- 63 \<le> ?n div 32768" "?n div 32768 \<le> 63" by simp_all
  then show ?thesis using False unfolding lerp15_split[of a b f] by (simp add: node_operand_def)
qed

lemma lerp15_node_range:
  assumes a: "0 \<le> a" "a \<le> 16320" and b: "0 \<le> b" "b \<le> 16320"
    and f: "node_frac f"
  shows "\<bar>lerp15 a b f - node_operand f a b\<bar> \<le> 16"
proof (cases "f = 0")
  case True
  have "a * 32767 = - a + a * 32768" by simp
  then have "(a * 32767) div 32768 = a + (- a) div 32768" by simp
  moreover have "- 1 \<le> (- a) div 32768" "(- a) div 32768 \<le> 0" using a by simp_all
  ultimately show ?thesis using True by (simp add: lerp15_zero node_operand_def)
next
  case False
  then have e: "32736 \<le> f" "f \<le> 32767" using f by (simp_all add: node_frac_def)
  have 1: "0 \<le> a * (32767 - f)" using a e by simp
  have "a * (32767 - f) \<le> 16320 * 31" using a e by (intro mult_mono) simp_all
  then have 2: "a * (32767 - f) \<le> 505920" by simp
  have 3: "0 \<le> b * (32768 - f)" using b e by simp
  have "b * (32768 - f) \<le> 16320 * 32" using b e by (intro mult_mono) simp_all
  then have 4: "b * (32768 - f) \<le> 522240" by simp
  let ?n = "a * (32767 - f) - b * (32768 - f)"
  have n: "- 522240 \<le> ?n" "?n \<le> 505920" using 1 2 3 4 by linarith+
  have "(- 522240) div 32768 \<le> ?n div 32768" using n(1) by (intro zdiv_mono1) simp_all
  moreover have "?n div 32768 \<le> 505920 div 32768" using n(2) by (intro zdiv_mono1) simp_all
  ultimately have "- 16 \<le> ?n div 32768" "?n div 32768 \<le> 15" by simp_all
  then show ?thesis using False unfolding lerp15_split[of a b f] by (simp add: node_operand_def)
qed

lemma lerp15_near:
  fixes lo hi eps d :: int
  assumes step: "\<And>a b. lo \<le> a \<Longrightarrow> a \<le> hi \<Longrightarrow> lo \<le> b \<Longrightarrow> b \<le> hi \<Longrightarrow>
                   \<bar>lerp15 a b f - node_operand f a b\<bar> \<le> eps"
    and x: "lo \<le> x'" "x' \<le> hi" "\<bar>x' - x\<bar> \<le> d"
    and y: "lo \<le> y'" "y' \<le> hi" "\<bar>y' - y\<bar> \<le> d"
  shows "\<bar>lerp15 x' y' f - node_operand f x y\<bar> \<le> eps + d"
proof -
  have "\<bar>lerp15 x' y' f - node_operand f x' y'\<bar> \<le> eps" by (rule step[OF x(1,2) y(1,2)])
  moreover have "\<bar>node_operand f x' y' - node_operand f x y\<bar> \<le> d"
    using x(3) y(3) by (simp add: node_operand_def)
  ultimately show ?thesis by linarith
qed

text \<open>The three nested blends with the weights of a pixel on a node: the result is the
  operand that the three weights select, up to three times the error of one blend.\<close>

lemma lerp15_nested_node:
  fixes lo hi eps :: int
  assumes step: "\<And>a b f. lo \<le> a \<Longrightarrow> a \<le> hi \<Longrightarrow> lo \<le> b \<Longrightarrow> b \<le> hi \<Longrightarrow> node_frac f \<Longrightarrow>
                   \<bar>lerp15 a b f - node_operand f a b\<bar> \<le> eps"
    and closed: "\<And>a b f. lo \<le> a \<Longrightarrow> a \<le> hi \<Longrightarrow> lo \<le> b \<Longrightarrow> b \<le> hi \<Longrightarrow> node_frac f \<Longrightarrow>
                   lo \<le> lerp15 a b f \<and> lerp15 a b f \<le> hi"
    and r: "lo \<le> a000 \<and> a000 \<le> hi" "lo \<le> a100 \<and> a100 \<le> hi" "lo \<le> a010 \<and> a010 \<le> hi"
      "lo \<le> a110 \<and> a110 \<le> hi" "lo \<le> a001 \<and> a001 \<le> hi" "lo \<le> a101 \<and> a101 \<le> hi"
      "lo \<le> a011 \<and> a011 \<le> hi" "lo \<le> a111 \<and> a111 \<le> hi"
    and f: "node_frac f1" "node_frac f2" "node_frac f3"
  shows "\<bar>lerp15 (lerp15 (lerp15 a000 a100 f1) (lerp15 a010 a110 f1) f2)
                 (lerp15 (lerp15 a001 a101 f1) (lerp15 a011 a111 f1) f2) f3
          - node_operand f3 (node_operand f2 (node_operand f1 a000 a100) (node_operand f1 a010 a110))
                            (node_operand f2 (node_operand f1 a001 a101) (node_operand f1 a011 a111))\<bar>
         \<le> 3 * eps"
proof -
  let ?ll = "lerp15 a000 a100 f1" and ?lr = "lerp15 a010 a110 f1"
  let ?rl = "lerp15 a001 a101 f1" and ?rr = "lerp15 a011 a111 f1"
  let ?l = "lerp15 ?ll ?lr f2" and ?r = "lerp15 ?rl ?rr f2"
  have ll: "lo \<le> ?ll \<and> ?ll \<le> hi" "\<bar>?ll - node_operand f1 a000 a100\<bar> \<le> eps"
    using closed[of a000 a100 f1] step[of a000 a100 f1] r f by simp_all
  have lr: "lo \<le> ?lr \<and> ?lr \<le> hi" "\<bar>?lr - node_operand f1 a010 a110\<bar> \<le> eps"
    using closed[of a010 a110 f1] step[of a010 a110 f1] r f by simp_all
  have rl: "lo \<le> ?rl \<and> ?rl \<le> hi" "\<bar>?rl - node_operand f1 a001 a101\<bar> \<le> eps"
    using closed[of a001 a101 f1] step[of a001 a101 f1] r f by simp_all
  have rr: "lo \<le> ?rr \<and> ?rr \<le> hi" "\<bar>?rr - node_operand f1 a011 a111\<bar> \<le> eps"
    using closed[of a011 a111 f1] step[of a011 a111 f1] r f by simp_all
  have s2: "\<bar>lerp15 a b f2 - node_operand f2 a b\<bar> \<le> eps"
    if "lo \<le> a" "a \<le> hi" "lo \<le> b" "b \<le> hi" for a b
    using step[OF that f(2)] .
  have s3: "\<bar>lerp15 a b f3 - node_operand f3 a b\<bar> \<le> eps"
    if "lo \<le> a" "a \<le> hi" "lo \<le> b" "b \<le> hi" for a b
    using step[OF that f(3)] .
  have l: "lo \<le> ?l \<and> ?l \<le> hi"
      "\<bar>?l - node_operand f2 (node_operand f1 a000 a100) (node_operand f1 a010 a110)\<bar> \<le> eps + eps"
    using closed[of ?ll ?lr f2] ll(1) lr(1) f(2) apply simp
    using ll lr by (intro lerp15_near[of lo hi f2 eps, OF s2]) simp_all
  have rg: "lo \<le> ?r \<and> ?r \<le> hi"
      "\<bar>?r - node_operand f2 (node_operand f1 a001 a101) (node_operand f1 a011 a111)\<bar> \<le> eps + eps"
    using closed[of ?rl ?rr f2] rl(1) rr(1) f(2) apply simp
    using rl rr by (intro lerp15_near[of lo hi f2 eps, OF s2]) simp_all
  have "\<bar>lerp15 ?l ?r f3
          - node_operand f3 (node_operand f2 (node_operand f1 a000 a100) (node_operand f1 a010 a110))
                            (node_operand f2 (node_operand f1 a001 a101) (node_operand f1 a011 a111))\<bar>
         \<le> eps + (eps + eps)"
    using l rg by (intro lerp15_near[of lo hi f3 eps, OF s3]) simp_all
  then show ?thesis by simp
qed

lemma uint_clip8:
  "uint (clip8 v) = (if (v + 32) div 64 < 0 then 0 else if 255 < (v + 32) div 64 then 255 else (v + 32) div 64)"
  by (simp add: clip8_def clip8_lookups_def PRECISION_ROUNDING_def PRECISION_BITS_def uint_word_of_int)

text \<open>The rounding clip maps values 64 units apart to bytes one level apart.\<close>

lemma clip8_near:
  fixes x y m :: int
  assumes "\<bar>x - y\<bar> \<le> 64 * m"
  shows "\<bar>uint (clip8 x) - uint (clip8 y)\<bar> \<le> m"
proof -
  define p where "p = (x + 32) div 64"
  define q where "q = (y + 32) div 64"
  have p: "64 * p \<le> x + 32" "x + 32 < 64 * p + 64"
    unfolding p_def using div_mult_mod_eq[of "x + 32" 64] pos_mod_bound[of 64 "x + 32"]
      pos_mod_sign[of 64 "x + 32"] by linarith+
  have q: "64 * q \<le> y + 32" "y + 32 < 64 * q + 64"
    unfolding q_def using div_mult_mod_eq[of "y + 32" 64] pos_mod_bound[of 64 "y + 32"]
      pos_mod_sign[of 64 "y + 32"] by linarith+
  have "p \<le> q + m" "q \<le> p + m" using p q assms by linarith+
  moreover have "0 \<le> m" using assms by linarith
  ultimately show ?thesis unfolding uint_clip8 p_def[symmetric] q_def[symmetric] by auto
qed

lemma sint_interpolate1_biased:
  assumes "0 \<le> f" "f \<le> 32767"
  shows "sint (interpolate1_biased a b (word_of_int f)) = lerp15 (sint a) (sint b) f"
proof -
  have f: "sint (word_of_int f :: 16 word) = f" using assms by (intro sint16_of_int) simp_all
  have e: "interpolate1_biased a b (word_of_int f) = word_of_int (lerp15 (sint a) (sint b) f)"
    unfolding interpolate1_biased_def f lerp15_def by (simp add: SHIFT_BITS_def)
  have r: "- 32768 \<le> sint a" "sint a \<le> 32767" "- 32768 \<le> sint b" "sint b \<le> 32767"
    using sint16_range[of a] sint16_range[of b] by simp_all
  from lerp15_bounds[OF r assms]
  have "- 32768 \<le> lerp15 (sint a) (sint b) f" "lerp15 (sint a) (sint b) f \<le> 32767" by simp_all
  then show ?thesis unfolding e by (rule sint16_of_int)
qed

text \<open>One channel of the biased scalar formula, as integer blends of the eight corners.\<close>

lemma scalar_lut3_biased_nth:
  assumes c: "c < 3" and f: "0 \<le> f1 \<and> f1 \<le> 32767" "0 \<le> f2 \<and> f2 \<le> 32767" "0 \<le> f3 \<and> f3 \<le> 32767"
  shows "scalar_lut3_biased table idx s1 s12 (word_of_int f1) (word_of_int f2) (word_of_int f3) ! c =
     clip8 (lerp15
       (lerp15 (lerp15 (sint (table ! nat (idx + 0 + int c))) (sint (table ! nat (idx + 0 + 3 + int c))) f1)
               (lerp15 (sint (table ! nat (idx + s1 * 3 + int c))) (sint (table ! nat (idx + s1 * 3 + 3 + int c))) f1) f2)
       (lerp15 (lerp15 (sint (table ! nat (idx + s12 * 3 + int c))) (sint (table ! nat (idx + s12 * 3 + 3 + int c))) f1)
               (lerp15 (sint (table ! nat (idx + s12 * 3 + s1 * 3 + int c)))
                       (sint (table ! nat (idx + s12 * 3 + s1 * 3 + 3 + int c))) f1) f2) f3)"
proof -
  note i = sint_interpolate1_biased[of f1] sint_interpolate1_biased[of f2] sint_interpolate1_biased[of f3]
  from c consider "c = 0" | "c = 1" | "c = 2" by linarith
  then show ?thesis
  proof cases
    case 1
    then show ?thesis using f by (simp add: scalar_lut3_biased_def table3_def i)
  next
    case 2
    then show ?thesis using f by (simp add: scalar_lut3_biased_def table3_def i)
  next
    case 3
    then show ?thesis using f by (simp add: scalar_lut3_biased_def table3_def i)
  qed
qed

lemma node_operand_offset:
  "node_operand f3 (node_operand f2 (node_operand f1 (t (o0 + 0 + c)) (t (o0 + 0 + 3 + c)))
                                   (node_operand f1 (t (o0 + s1 * 3 + c)) (t (o0 + s1 * 3 + 3 + c))))
                   (node_operand f2 (node_operand f1 (t (o0 + s12 * 3 + c)) (t (o0 + s12 * 3 + 3 + c)))
                                   (node_operand f1 (t (o0 + s12 * 3 + s1 * 3 + c)) (t (o0 + s12 * 3 + s1 * 3 + 3 + c))))
   = t (o0 + 3 * (node_operand f1 0 1 + node_operand f2 0 1 * s1 + node_operand f3 0 1 * s12) + (c :: int))"
  by (simp add: node_operand_def algebra_simps)

text \<open>
  The bytes of the biased scalar formula for weights of a pixel on a node: each is within
  three levels of the rounding clip of the table value at that node, and within one
  level when the eight corners of the cell hold values in \<open>[0, 16320]\<close>.
\<close>

lemma scalar_lut3_biased_node:
  fixes idx s1 s12 :: int and table :: "INT16 list"
  assumes c: "c < 3" and f: "node_frac f1" "node_frac f2" "node_frac f3"
  defines "n \<equiv> idx + 3 * (node_operand f1 0 1 + node_operand f2 0 1 * s1 + node_operand f3 0 1 * s12) + int c"
  defines "out \<equiv> scalar_lut3_biased table idx s1 s12 (word_of_int f1) (word_of_int f2) (word_of_int f3) ! c"
  shows "\<bar>uint out - uint (clip8 (sint (table ! nat n)))\<bar> \<le> 3"
    and "0 \<le> s1 \<Longrightarrow> 0 \<le> s12 \<Longrightarrow>
         (\<And>k. 0 \<le> k \<Longrightarrow> k \<le> s12 * 3 + s1 * 3 + 3 \<Longrightarrow>
            0 \<le> sint (table ! nat (idx + k + int c)) \<and> sint (table ! nat (idx + k + int c)) \<le> 16320) \<Longrightarrow>
         \<bar>uint out - uint (clip8 (sint (table ! nat n)))\<bar> \<le> 1"
proof -
  let ?t = "\<lambda>k. sint (table ! nat k)"
  note fr = node_frac_range[OF f(1)] node_frac_range[OF f(2)] node_frac_range[OF f(3)]
  note o = scalar_lut3_biased_nth[OF c fr, of table idx s1 s12]
  note sel = node_operand_offset[of f3 f2 f1 ?t idx "int c" s1 s12]
  have r: "- 32768 \<le> ?t k \<and> ?t k \<le> 32767" for k using sint16_range[of "table ! nat k"] .
  have cl: "- 32768 \<le> lerp15 a b f \<and> lerp15 a b f \<le> 32767"
    if "- 32768 \<le> a" "a \<le> 32767" "- 32768 \<le> b" "b \<le> 32767" "node_frac f" for a b f
    using lerp15_bounds[OF that(1-4), of f] node_frac_range[OF that(5)] by simp
  have "\<bar>lerp15
       (lerp15 (lerp15 (?t (idx + 0 + int c)) (?t (idx + 0 + 3 + int c)) f1)
               (lerp15 (?t (idx + s1 * 3 + int c)) (?t (idx + s1 * 3 + 3 + int c)) f1) f2)
       (lerp15 (lerp15 (?t (idx + s12 * 3 + int c)) (?t (idx + s12 * 3 + 3 + int c)) f1)
               (lerp15 (?t (idx + s12 * 3 + s1 * 3 + int c)) (?t (idx + s12 * 3 + s1 * 3 + 3 + int c)) f1) f2) f3
      - ?t n\<bar> \<le> 3 * 63"
    unfolding n_def sel[symmetric]
    by (rule lerp15_nested_node[of "- 32768" 32767 63, OF lerp15_node cl r r r r r r r r f])
  then show "\<bar>uint out - uint (clip8 (sint (table ! nat n)))\<bar> \<le> 3"
    unfolding out_def o by (intro clip8_near) simp
  assume s: "0 \<le> s1" "0 \<le> s12"
  assume rng: "\<And>k. 0 \<le> k \<Longrightarrow> k \<le> s12 * 3 + s1 * 3 + 3 \<Longrightarrow>
            0 \<le> sint (table ! nat (idx + k + int c)) \<and> sint (table ! nat (idx + k + int c)) \<le> 16320"
  have g: "0 \<le> ?t (idx + 0 + int c) \<and> ?t (idx + 0 + int c) \<le> 16320"
      "0 \<le> ?t (idx + 0 + 3 + int c) \<and> ?t (idx + 0 + 3 + int c) \<le> 16320"
      "0 \<le> ?t (idx + s1 * 3 + int c) \<and> ?t (idx + s1 * 3 + int c) \<le> 16320"
      "0 \<le> ?t (idx + s1 * 3 + 3 + int c) \<and> ?t (idx + s1 * 3 + 3 + int c) \<le> 16320"
      "0 \<le> ?t (idx + s12 * 3 + int c) \<and> ?t (idx + s12 * 3 + int c) \<le> 16320"
      "0 \<le> ?t (idx + s12 * 3 + 3 + int c) \<and> ?t (idx + s12 * 3 + 3 + int c) \<le> 16320"
      "0 \<le> ?t (idx + s12 * 3 + s1 * 3 + int c) \<and> ?t (idx + s12 * 3 + s1 * 3 + int c) \<le> 16320"
      "0 \<le> ?t (idx + s12 * 3 + s1 * 3 + 3 + int c) \<and> ?t (idx + s12 * 3 + s1 * 3 + 3 + int c) \<le> 16320"
    using rng[of 0] rng[of 3] rng[of "s1 * 3"] rng[of "s1 * 3 + 3"] rng[of "s12 * 3"] rng[of "s12 * 3 + 3"]
      rng[of "s12 * 3 + s1 * 3"] rng[of "s12 * 3 + s1 * 3 + 3"] s
    by (simp_all add: add.assoc)
  have cl': "0 \<le> lerp15 a b f \<and> lerp15 a b f \<le> 16320"
    if "0 \<le> a" "a \<le> 16320" "0 \<le> b" "b \<le> 16320" "node_frac f" for a b f
    using lerp15_bounds[OF that(1-4), of f] node_frac_range[OF that(5)] by simp
  have "\<bar>lerp15
       (lerp15 (lerp15 (?t (idx + 0 + int c)) (?t (idx + 0 + 3 + int c)) f1)
               (lerp15 (?t (idx + s1 * 3 + int c)) (?t (idx + s1 * 3 + 3 + int c)) f1) f2)
       (lerp15 (lerp15 (?t (idx + s12 * 3 + int c)) (?t (idx + s12 * 3 + 3 + int c)) f1)
               (lerp15 (?t (idx + s12 * 3 + s1 * 3 + int c)) (?t (idx + s12 * 3 + s1 * 3 + 3 + int c)) f1) f2) f3
      - ?t n\<bar> \<le> 3 * 16"
    unfolding n_def sel[symmetric]
    by (rule lerp15_nested_node[of 0 16320 16, OF lerp15_node_range cl' g f])
  then show "\<bar>uint out - uint (clip8 (sint (table ! nat n)))\<bar> \<le> 1"
    unfolding out_def o by (intro clip8_near) simp
qed

text \<open>Only the channel value 0 has the fractional weight 0: a value off the nodes keeps
  a weight of at least 96, a value on a node other than 0 one of at least 32736.\<close>

lemma grid_frac_zero:
  fixes v sz :: int
  assumes sz: "2 \<le> sz" "sz \<le> 65" and v: "0 \<le> v" "v \<le> 255"
    and z: "grid_frac sz v = 0"
  shows "v = 0"
proof (rule ccontr)
  assume "v \<noteq> 0"
  then have v0: "0 < v" using v(1) by simp
  define s where "s = lut_scale sz"
  define N where "N = (sz - 1) * 262144"
  define q where "q = v * (sz - 1) div 255"
  define p where "p = v * (sz - 1) mod 255"
  define c where "c = grid_coord sz v"
  show False
  proof (cases "p = 0")
    case True
    from grid_on_node(2)[OF sz v0 v(2) True[unfolded p_def]] z show False by simp
  next
    case False
    have p: "1 \<le> p" "p \<le> 254"
      using False pos_mod_sign[of 255 "v * (sz - 1)"] pos_mod_bound[of 255 "v * (sz - 1)"]
      unfolding p_def by linarith+
    have s1: "255 * s < N" using lut_scale_strict[OF sz] unfolding s_def N_def by simp
    have "s = N div 255" unfolding s_def N_def using sz by (simp add: lut_scale_eq)
    moreover have "N = 255 * (N div 255) + N mod 255" by simp
    moreover have "N mod 255 \<le> 254" using pos_mod_bound[of 255 N] by simp
    ultimately have s2: "N - 254 \<le> 255 * s" by linarith
    have w: "v * (sz - 1) = 255 * q + p" unfolding q_def p_def by simp
    have vN: "v * N = 255 * (q * 262144) + p * 262144"
    proof -
      have "v * N = (v * (sz - 1)) * 262144" unfolding N_def by simp
      then show ?thesis unfolding w by (simp add: algebra_simps)
    qed
    have up: "v * (255 * s) < v * N" using s1 v0 by (rule mult_strict_left_mono)
    have "v * (N - 254) \<le> v * (255 * s)" using s2 v0 by (intro mult_left_mono) simp_all
    then have lo: "v * N - v * 254 \<le> v * (255 * s)" by (simp add: right_diff_distrib)
    have e: "v * (255 * s) = 255 * c" unfolding c_def grid_coord_def s_def by simp
    have "v * 254 \<le> 255 * 254" using v(2) by simp
    with lo p(1) have "255 * (q * 262144) + 262144 - 64770 \<le> 255 * c" unfolding vN e by linarith
    then have l: "q * 262144 + 775 \<le> c" by linarith
    from up p(2) have "255 * c < 255 * (q * 262144) + 254 * 262144" unfolding vN e by linarith
    then have u: "c < q * 262144 + 262144" by linarith
    define d where "d = c - q * 262144"
    have d: "775 \<le> d" "d < 262144" using l u unfolding d_def by simp_all
    have cd: "c = 262144 * q + d" unfolding d_def by simp
    have m: "c mod 262144 = d" using d by (intro int_mod_pos_eq[OF cd]) simp_all
    have "grid_frac sz v = d div 8"
      unfolding grid_frac_def c_def[symmetric] by (simp add: SCALE_BITS_def SHIFT_BITS_def m)
    moreover have "775 div 8 \<le> d div 8" using d(1) by (intro zdiv_mono1) simp_all
    ultimately show False using z by simp
  qed
qed

lemma lut_index_srli_lanes:
  assumes "2 \<le> size1D" "size1D \<le> 65" "2 \<le> size2D" "size2D \<le> 65" "2 \<le> size3D" "size3D \<le> 65"
  shows "uint (lane (mm_srli_epi32 (pixel_index size1D size2D size3D r g b) SCALE_BITS) 0) = grid_index size1D (uint r)"
    and "uint (lane (mm_srli_epi32 (pixel_index size1D size2D size3D r g b) SCALE_BITS) 1) = grid_index size2D (uint g)"
    and "uint (lane (mm_srli_epi32 (pixel_index size1D size2D size3D r g b) SCALE_BITS) 2) = grid_index size3D (uint b)"
  unfolding pixel_index_def mm_srli_epi32_def map_epi32.simps lane_M128
  by (rule index_lane_value[OF assms(1,2)] index_lane_value[OF assms(3,4)] index_lane_value[OF assms(5,6)])+

lemma load_zero_row:
  "load_si128 (replicate 20 0) 0 = Some (m128i_of_bytes (replicate 16 0))"
  by (simp add: load_si128_def load_range_def)

lemma lut_index_zero:
  "lut_index (scale 2 2 2) (m128i_of_bytes (replicate 16 0)) = pixel_index 2 2 2 0 0 0"
  using lut_index_load[OF load_zero_row, of 2 2 2] by (simp add: pixel_index_def)

lemma pixel_index_zero: "pixel_index s1 s2 s3 0 0 0 = M128 0 0 0 0"
  by (simp add: pixel_index_def coord_lane_def)

lemma identity_table_2_first_zero:
  "scalar_lut3_biased identity_table_2 0 2 4 0 0 0 ! 0 = 0"
  unfolding scalar_lut3_biased_zero[of 0 0, simplified]
  by (simp add: identity_table_2_def clip8_low)

lemma identity_table_2_first_full:
  "scalar_lut3_biased identity_table_2 0 2 4 32767 0 0 ! 0 = 255"
proof -
  have b: "interpolate1_biased 0 16320 32767 = 16319" "interpolate1_biased 16319 16319 0 = 16318"
      "interpolate1_biased 16318 16318 0 = 16317"
    by (simp_all add: interpolate1_biased_def SHIFT_BITS_def)
  have c: "clip8 16317 = 255"
    by (simp add: clip8_def clip8_lookups_def PRECISION_ROUNDING_def PRECISION_BITS_def)
  show ?thesis
    by (simp add: scalar_lut3_biased_def table3_def identity_table_2_def b c)
qed

lemma grid_255_size2:
  "grid_index 2 255 = 0" "grid_frac 2 255 = 32767"
  by (simp_all add: grid_index_def grid_frac_def grid_coord_def lut_scale_def SCALE_BITS_def SHIFT_BITS_def)

section \<open>Claims\<close>

subsection \<open>C1: pixels on a grid node\<close>

text \<open>
  C1 as stated fails: with fractional weight 0 the complementary weight is
  \<open>2 ^ SHIFT_BITS - 1\<close>, so each of the three blends multiplies the stored value by
  \<open>32767 / 32768\<close>.  For a 2x2x2 table that holds 32 everywhere and the pixel (0,0,0) the
  stored byte is 0, while the rounding clip of the stored value 32 is 1.
\<close>

theorem C1_exactness_counterexample:
  "load_si128 (image \<lparr>type = IMAGING_TYPE_UINT8, bands = 3, xsize = 1, ysize = 1, image = [replicate 20 0]\<rparr> ! 0) 0
      = Some (m128i_of_bytes (replicate 16 0)) \<and>
   lut_frac (lut_index (scale 2 2 2) (m128i_of_bytes (replicate 16 0))) = mm_setzero_si128 \<and>
   lut_idx 3 (index_mul 2 (2 * 2)) (lut_index (scale 2 2 2) (m128i_of_bytes (replicate 16 0))) = 0 \<and>
   fst (ImagingColorLUT3D_linear
      \<lparr>type = IMAGING_TYPE_UINT8, bands = 3, xsize = 1, ysize = 1, image = [[9, 9, 9, 9]]\<rparr>
      \<lparr>type = IMAGING_TYPE_UINT8, bands = 3, xsize = 1, ysize = 1, image = [replicate 20 0]\<rparr>
      3 2 2 2 (replicate 26 32)) = None \<and>
   image (snd (ImagingColorLUT3D_linear
      \<lparr>type = IMAGING_TYPE_UINT8, bands = 3, xsize = 1, ysize = 1, image = [[9, 9, 9, 9]]\<rparr>
      \<lparr>type = IMAGING_TYPE_UINT8, bands = 3, xsize = 1, ysize = 1, image = [replicate 20 0]\<rparr>
      3 2 2 2 (replicate 26 32))) ! 0 ! 0 = 0 \<and>
   clip8 (sint (replicate 26 (32 :: INT16) ! 0)) = 1"
proof -
  let ?out = "\<lparr>type = IMAGING_TYPE_UINT8, bands = 3, xsize = 1, ysize = 1, image = [[9, 9, 9, 9 :: UINT8]]\<rparr>"
  let ?in = "\<lparr>type = IMAGING_TYPE_UINT8, bands = 3, xsize = 1, ysize = 1, image = [replicate 20 (0 :: UINT8)]\<rparr>"
  have p: "lut_checks_pass ?out ?in 3" by (simp add: lut_checks_pass_def)
  have b: "buffers_ok ?out ?in 2 2 2 (replicate 26 32)" by (simp add: buffers_ok_def)
  have l: "load_si128 (image ?in ! 0) 0 = Some (m128i_of_bytes (replicate 16 0))"
    using load_zero_row by simp
  have f: "lut_frac (lut_index (scale 2 2 2) (m128i_of_bytes (replicate 16 0))) = mm_setzero_si128"
    unfolding lut_index_zero pixel_index_zero lut_frac_lanes
    by (simp add: frac_lane_def mm_setzero_si128_def)
  have i: "lut_idx 3 (index_mul 2 (2 * 2)) (lut_index (scale 2 2 2) (m128i_of_bytes (replicate 16 0))) = 0"
    unfolding lut_index_zero using pixel_idx_value[of 2 2 2 3 0 0 0] by (simp add: grid_zero)
  have 1: "fst (ImagingColorLUT3D_linear ?out ?in 3 2 2 2 (replicate 26 32)) = None"
    by (rule transform_3_pixel(1)[OF p _ _ _ _ _ _ b, of 0 0]) simp_all
  have "image (snd (ImagingColorLUT3D_linear ?out ?in 3 2 2 2 (replicate 26 32))) ! 0 ! (4 * 0 + 0)
      = scalar_lut3_biased (replicate 26 32) 0 2 4 0 0 0 ! 0"
    using transform_3_pixel(2)[OF p _ _ _ _ _ _ b, of 0 0 0] by (simp add: grid_zero)
  then have 2: "image (snd (ImagingColorLUT3D_linear ?out ?in 3 2 2 2 (replicate 26 32))) ! 0 ! 0 = 0"
    by (simp add: scalar_lut3_biased_const32)
  have 3: "clip8 (sint (replicate 26 (32 :: INT16) ! 0)) = 1"
    by (simp add: clip8_def clip8_lookups_def PRECISION_ROUNDING_def PRECISION_BITS_def)
  from l f i 1 2 3 show ?thesis by blast
qed

text \<open>
  C1, amended: for every three-channel table with grid sizes in [2,65], every call that
  passes the checks with buffers covering the accessed ranges, and every pixel that
  lands exactly on a grid node in all three axes (each channel value \<open>v\<close> has
  \<open>v * (size - 1)\<close> divisible by 255; the node is \<open>v * (size - 1) / 255\<close>) and has the
  colour of the first pixel of its row, the call succeeds and each of the three channel
  values of the output pixel differs from the table's stored value at that node,
  converted to 8 bits by the rounding clip \<open>(value + PRECISION_ROUNDING) >> PRECISION_BITS\<close>
  saturated to \<open>[0,255]\<close>, by at most three levels, and by at most one level when the
  stored values of the table lie in \<open>[0, 255 << PRECISION_BITS]\<close>.  The pixels whose
  fixed-point coordinate has the fractional weight 0 in an axis are among them: by
  lemma \<open>grid_frac_zero\<close> their channel value is 0, on node 0; a value on any other node
  has the base index of the node before and a weight of at least 32736
  (lemma \<open>grid_on_node\<close>).
\<close>

theorem C1_grid_node_output:
  assumes "lut_checks_pass imOut imIn 3"
    and "2 \<le> size1D" "size1D \<le> 65" "2 \<le> size2D" "size2D \<le> 65" "2 \<le> size3D" "size3D \<le> 65"
    and "buffers_ok imOut imIn size1D size2D size3D table"
    and "y < nat (ysize imOut)" and "x < nat (xsize imOut)"
    and "image imIn ! y ! (4 * x) = image imIn ! y ! 0"
    and "image imIn ! y ! (4 * x + 1) = image imIn ! y ! 1"
    and "image imIn ! y ! (4 * x + 2) = image imIn ! y ! 2"
    and "uint (image imIn ! y ! (4 * x)) * (size1D - 1) mod 255 = 0"
    and "uint (image imIn ! y ! (4 * x + 1)) * (size2D - 1) mod 255 = 0"
    and "uint (image imIn ! y ! (4 * x + 2)) * (size3D - 1) mod 255 = 0"
    and "c < 3"
  shows
    "let res = ImagingColorLUT3D_linear imOut imIn 3 size1D size2D size3D table;
         node = table_index3D (uint (image imIn ! y ! (4 * x)) * (size1D - 1) div 255)
                  (uint (image imIn ! y ! (4 * x + 1)) * (size2D - 1) div 255)
                  (uint (image imIn ! y ! (4 * x + 2)) * (size3D - 1) div 255) size1D (size1D * size2D);
         stored = table ! nat (3 * node + int c);
         out = image (snd res) ! y ! (4 * x + c)
     in fst res = None \<and>
        \<bar>uint out - uint (clip8 (sint stored))\<bar> \<le> 3 \<and>
        ((\<forall>v\<in>set table. 0 \<le> sint v \<and> sint v \<le> 255 * 2 ^ PRECISION_BITS) \<longrightarrow>
           \<bar>uint out - uint (clip8 (sint stored))\<bar> \<le> 1)"
proof -
  note sz = assms(2-7) and buf = assms(8)
  define r where "r = image imIn ! y ! 0"
  define g where "g = image imIn ! y ! 1"
  define b where "b = image imIn ! y ! 2"
  note px = assms(11-13)[folded r_def g_def b_def]
  note on = assms(14-16)[unfolded px]
  define f1 where "f1 = grid_frac size1D (uint r)"
  define f2 where "f2 = grid_frac size2D (uint g)"
  define f3 where "f3 = grid_frac size3D (uint b)"
  define idx where "idx = 3 * grid_node size1D size2D size3D r g b"
  define s12 where "s12 = size1D * size2D"
  note n1 = grid_frac_node[OF sz(1,2) on(1), folded f1_def]
  note n2 = grid_frac_node[OF sz(3,4) on(2), folded f2_def]
  note n3 = grid_frac_node[OF sz(5,6) on(3), folded f3_def]
  define res where "res = ImagingColorLUT3D_linear imOut imIn 3 size1D size2D size3D table"
  define out where "out = image (snd res) ! y ! (4 * x + c)"
  define n where "n = 3 * table_index3D (uint r * (size1D - 1) div 255) (uint g * (size2D - 1) div 255)
                        (uint b * (size3D - 1) div 255) size1D s12 + int c"
  note t = transform_3_pixel[OF assms(1) sz buf assms(9,10), folded res_def r_def g_def b_def]
  have o: "out = scalar_lut3_biased table idx size1D s12 (word_of_int f1) (word_of_int f2) (word_of_int f3) ! c"
    unfolding out_def idx_def s12_def f1_def f2_def f3_def by (rule t(2)[OF assms(17)])
  have n: "n = idx + 3 * (node_operand f1 0 1 + node_operand f2 0 1 * size1D + node_operand f3 0 1 * s12) + int c"
    unfolding n_def idx_def n1(2)[symmetric] n2(2)[symmetric] n3(2)[symmetric]
      grid_node_def table_index3D_def s12_def
    by (simp add: algebra_simps)
  note b3 = scalar_lut3_biased_node[where idx = idx and ?s1.0 = size1D and ?s12.0 = s12 and table = table,
      OF assms(17) n1(1) n2(1) n3(1), folded o n]
  have s: "0 \<le> size1D" "0 \<le> s12" unfolding s12_def using sz by simp_all
  have one: "\<bar>uint out - uint (clip8 (sint (table ! nat n)))\<bar> \<le> 1"
    if rng: "\<forall>v\<in>set table. 0 \<le> sint v \<and> sint v \<le> 255 * 2 ^ PRECISION_BITS"
  proof (rule b3(2)[OF s])
    fix k :: int
    assume k: "0 \<le> k" "k \<le> s12 * 3 + size1D * 3 + 3"
    note gr = grid_node_range[OF sz, of r g b]
    have p: "0 \<le> size1D * size2D * size3D" using sz by simp
    have "3 * nat (size1D * size2D * size3D) + 2 \<le> length table" using buf by (simp add: buffers_ok_def)
    then have "3 * (size1D * size2D * size3D) + 2 \<le> int (length table)" using p by linarith
    moreover have "idx + k + int c < 3 * (size1D * size2D * size3D)"
      using gr(2) k(2) assms(17) unfolding idx_def s12_def by linarith
    moreover have "0 \<le> idx + k + int c" using gr(1) k(1) unfolding idx_def by simp
    ultimately have "nat (idx + k + int c) < length table" by linarith
    then have "table ! nat (idx + k + int c) \<in> set table" by (rule nth_mem)
    with rng show "0 \<le> sint (table ! nat (idx + k + int c)) \<and> sint (table ! nat (idx + k + int c)) \<le> 16320"
      by (simp add: PRECISION_BITS_def)
  qed
  from t(1) b3(1) one show ?thesis
    unfolding Let_def px res_def[symmetric] out_def[symmetric] n_def[symmetric] s12_def[symmetric]
    by simp
qed

theorem C1_grid_node_output_witness:
  "lut_checks_pass
      \<lparr>type = IMAGING_TYPE_UINT8, bands = 3, xsize = 2, ysize = 1, image = [replicate 8 9]\<rparr>
      \<lparr>type = IMAGING_TYPE_UINT8, bands = 3, xsize = 2, ysize = 1,
       image = [[255, 0, 0, 255, 255, 0, 0, 255] @ replicate 16 0]\<rparr> 3 \<and>
   buffers_ok
      \<lparr>type = IMAGING_TYPE_UINT8, bands = 3, xsize = 2, ysize = 1, image = [replicate 8 9]\<rparr>
      \<lparr>type = IMAGING_TYPE_UINT8, bands = 3, xsize = 2, ysize = 1,
       image = [[255, 0, 0, 255, 255, 0, 0, 255] @ replicate 16 0]\<rparr>
      4 2 2 ramp_table_4 \<and>
   uint (255 :: UINT8) * (4 - 1) mod 255 = 0 \<and> uint (0 :: UINT8) * (2 - 1) mod 255 = 0 \<and>
   list_all (\<lambda>v. 0 \<le> sint v \<and> sint v \<le> 255 * 2 ^ PRECISION_BITS) ramp_table_4 \<and>
   table_index3D (uint (255 :: UINT8) * (4 - 1) div 255) (uint (0 :: UINT8) * (2 - 1) div 255)
     (uint (0 :: UINT8) * (2 - 1) div 255) 4 (4 * 2) = 3 \<and>
   uint (clip8 (sint (ramp_table_4 ! 9))) = 47 \<and>
   \<bar>uint (image (snd (ImagingColorLUT3D_linear
      \<lparr>type = IMAGING_TYPE_UINT8, bands = 3, xsize = 2, ysize = 1, image = [replicate 8 9]\<rparr>
      \<lparr>type = IMAGING_TYPE_UINT8, bands = 3, xsize = 2, ysize = 1,
       image = [[255, 0, 0, 255, 255, 0, 0, 255] @ replicate 16 0]\<rparr>
      3 4 2 2 ramp_table_4)) ! 0 ! 4) - 47\<bar> \<le> 1"
proof -
  let ?out = "\<lparr>type = IMAGING_TYPE_UINT8, bands = 3, xsize = 2, ysize = 1, image = [replicate 8 (9 :: UINT8)]\<rparr>"
  let ?in = "\<lparr>type = IMAGING_TYPE_UINT8, bands = 3, xsize = 2, ysize = 1,
       image = [[255, 0, 0, 255, 255, 0, 0, 255 :: UINT8] @ replicate 16 0]\<rparr>"
  have p: "lut_checks_pass ?out ?in 3" by (simp add: lut_checks_pass_def)
  have b: "buffers_ok ?out ?in 4 2 2 ramp_table_4" by (simp add: buffers_ok_def ramp_table_4_def)
  have r': "list_all (\<lambda>v. 0 \<le> sint v \<and> sint v \<le> 255 * 2 ^ PRECISION_BITS) ramp_table_4"
    by (simp add: ramp_table_4_def PRECISION_BITS_def)
  then have r: "\<forall>v\<in>set ramp_table_4. 0 \<le> sint v \<and> sint v \<le> 255 * 2 ^ PRECISION_BITS"
    by (simp only: list_all_iff)
  have n: "table_index3D (uint (255 :: UINT8) * (4 - 1) div 255) (uint (0 :: UINT8) * (2 - 1) div 255)
     (uint (0 :: UINT8) * (2 - 1) div 255) 4 (4 * 2) = 3"
    by (simp add: table_index3D_def)
  have s: "uint (clip8 (sint (ramp_table_4 ! 9))) = 47"
    by (simp add: ramp_table_4_def uint_clip8)
  have "\<bar>uint (image (snd (ImagingColorLUT3D_linear ?out ?in 3 4 2 2 ramp_table_4)) ! 0 ! (4 * 1 + 0))
          - uint (clip8 (sint (ramp_table_4 ! nat (3 * 3 + int 0))))\<bar> \<le> 1"
    using C1_grid_node_output[OF p _ _ _ _ _ _ b, of 0 1 0] r n unfolding Let_def by simp
  then have "\<bar>uint (image (snd (ImagingColorLUT3D_linear ?out ?in 3 4 2 2 ramp_table_4)) ! 0 ! 4) - 47\<bar> \<le> 1"
    using s by simp
  with p b r' n s show ?thesis by simp
qed

subsection \<open>C2: error behaviour\<close>

text \<open>
  C2 as stated fails in one direction: the check on \<open>table_channels\<close> runs first, so a
  call with \<open>table_channels = 2\<close> and an input image that is not 8-bit-unsigned fails
  with \<open>ValueError\<close> (InvalidArgument), although the ModeMismatch condition of the claim
  holds for it.
\<close>

theorem C2_mode_error_counterexample:
  "\<not> (fst (ImagingColorLUT3D_linear
            \<lparr>type = IMAGING_TYPE_UINT8, bands = 3, xsize = 0, ysize = 0, image = []\<rparr>
            \<lparr>type = IMAGING_TYPE_INT32, bands = 3, xsize = 0, ysize = 0, image = []\<rparr>
            2 2 2 2 []) = Some ModeError
        \<longleftrightarrow>
        (type \<lparr>type = IMAGING_TYPE_INT32, bands = 3, xsize = 0, ysize = 0, image = []\<rparr> \<noteq> IMAGING_TYPE_UINT8 \<or>
         type \<lparr>type = IMAGING_TYPE_UINT8, bands = 3, xsize = 0, ysize = 0, image = []\<rparr> \<noteq> IMAGING_TYPE_UINT8 \<or>
         bands \<lparr>type = IMAGING_TYPE_INT32, bands = 3, xsize = 0, ysize = 0, image = []\<rparr> < 3 \<or>
         bands \<lparr>type = IMAGING_TYPE_UINT8, bands = 3, xsize = 0, ysize = 0, image = []\<rparr> < 2 \<or>
         (bands \<lparr>type = IMAGING_TYPE_UINT8, bands = 3, xsize = 0, ysize = 0, image = []\<rparr> > 2 \<and>
          bands \<lparr>type = IMAGING_TYPE_UINT8, bands = 3, xsize = 0, ysize = 0, image = []\<rparr>
            > bands \<lparr>type = IMAGING_TYPE_INT32, bands = 3, xsize = 0, ysize = 0, image = []\<rparr>)))"
  by (simp add: ImagingColorLUT3D_linear_def ImagingColorLUT3D_linear_traced_def)

text \<open>
  C2, amended: the transform fails with \<open>ValueError\<close> (InvalidArgument) if and only if
  \<open>table_channels\<close> is outside {3,4}; it fails with \<open>ModeError\<close> (ModeMismatch) if and
  only if \<open>table_channels\<close> is in {3,4} and the pixel storage type of either image is
  not 8-bit-unsigned, or input bands < 3, or output bands < \<open>table_channels\<close>, or
  (output bands > \<open>table_channels\<close> and output bands > input bands); on every call
  failing with one of the two errors the output image is unmodified; and on every
  passing call with grid sizes in [2,65] whose buffers cover the accessed ranges
  (\<open>buffers_ok\<close>) the output image is returned, with only its pixel rows updated.
\<close>

theorem C2_error_behaviour:
  "let r = ImagingColorLUT3D_linear imOut imIn tc size1D size2D size3D table in
     (fst r = Some ValueError \<longleftrightarrow> tc < 3 \<or> 4 < tc) \<and>
     (fst r = Some ModeError \<longleftrightarrow>
        3 \<le> tc \<and> tc \<le> 4 \<and>
        (type imIn \<noteq> IMAGING_TYPE_UINT8 \<or> type imOut \<noteq> IMAGING_TYPE_UINT8 \<or>
         bands imIn < 3 \<or> bands imOut < tc \<or> (bands imOut > tc \<and> bands imOut > bands imIn))) \<and>
     (fst r = Some ValueError \<or> fst r = Some ModeError \<longrightarrow> snd r = imOut) \<and>
     (lut_checks_pass imOut imIn tc \<and> 2 \<le> size1D \<and> size1D \<le> 65 \<and> 2 \<le> size2D \<and> size2D \<le> 65 \<and>
      2 \<le> size3D \<and> size3D \<le> 65 \<and> buffers_ok imOut imIn size1D size2D size3D table
        \<longrightarrow> fst r = None \<and> (\<exists>rows. snd r = imOut\<lparr>image := rows\<rparr>))"
proof (cases "lut_checks_pass imOut imIn tc")
  case False
  then show ?thesis
    unfolding lut_checks_pass_def ImagingColorLUT3D_linear_def ImagingColorLUT3D_linear_traced_def Let_def
    by (auto simp: not_less not_le)
next
  case pass: True
  define r where "r = ImagingColorLUT3D_linear imOut imIn tc size1D size2D size3D table"
  have no: "fst r \<noteq> Some ValueError" "fst r \<noteq> Some ModeError"
    using transform_error[OF _ pass, of size1D size2D size3D table] unfolding r_def by auto
  have ok: "fst r = None \<and> (\<exists>rows. snd r = imOut\<lparr>image := rows\<rparr>)"
    if sz: "2 \<le> size1D" "size1D \<le> 65" "2 \<le> size2D" "size2D \<le> 65" "2 \<le> size3D" "size3D \<le> 65"
      and buf: "buffers_ok imOut imIn size1D size2D size3D table"
  proof (cases "tc = 3")
    case True
    from transform_3[OF pass[unfolded True] sz buf]
    obtain rows where "r = (None, imOut\<lparr>image := rows\<rparr>)" unfolding r_def True by blast
    then show ?thesis by auto
  next
    case False
    from transform_4[OF pass False buf] have "r = (None, imOut)" unfolding r_def .
    moreover have "imOut = imOut\<lparr>image := image imOut\<rparr>" by simp
    ultimately show ?thesis by (metis fst_conv snd_conv)
  qed
  from pass no ok show ?thesis
    unfolding Let_def r_def[symmetric] lut_checks_pass_def by (auto simp: not_less not_le)
qed

theorem C2_error_behaviour_witness:
  "lut_checks_pass
      \<lparr>type = IMAGING_TYPE_UINT8, bands = 3, xsize = 1, ysize = 1, image = [[9, 9, 9, 9]]\<rparr>
      \<lparr>type = IMAGING_TYPE_UINT8, bands = 3, xsize = 1, ysize = 1, image = [replicate 20 0]\<rparr> 3 \<and>
   buffers_ok
      \<lparr>type = IMAGING_TYPE_UINT8, bands = 3, xsize = 1, ysize = 1, image = [[9, 9, 9, 9]]\<rparr>
      \<lparr>type = IMAGING_TYPE_UINT8, bands = 3, xsize = 1, ysize = 1, image = [replicate 20 0]\<rparr>
      2 2 2 (replicate 26 0) \<and>
   fst (ImagingColorLUT3D_linear
      \<lparr>type = IMAGING_TYPE_UINT8, bands = 3, xsize = 1, ysize = 1, image = [[9, 9, 9, 9]]\<rparr>
      \<lparr>type = IMAGING_TYPE_UINT8, bands = 3, xsize = 1, ysize = 1, image = [replicate 20 0]\<rparr>
      3 2 2 2 (replicate 26 0)) = None \<and>
   fst (ImagingColorLUT3D_linear
      \<lparr>type = IMAGING_TYPE_UINT8, bands = 3, xsize = 1, ysize = 1, image = [[9, 9, 9, 9]]\<rparr>
      \<lparr>type = IMAGING_TYPE_UINT8, bands = 2, xsize = 1, ysize = 1, image = [replicate 20 0]\<rparr>
      3 2 2 2 (replicate 26 0)) = Some ModeError \<and>
   snd (ImagingColorLUT3D_linear
      \<lparr>type = IMAGING_TYPE_UINT8, bands = 3, xsize = 1, ysize = 1, image = [[9, 9, 9, 9]]\<rparr>
      \<lparr>type = IMAGING_TYPE_UINT8, bands = 2, xsize = 1, ysize = 1, image = [replicate 20 0]\<rparr>
      3 2 2 2 (replicate 26 0)) =
      \<lparr>type = IMAGING_TYPE_UINT8, bands = 3, xsize = 1, ysize = 1, image = [[9, 9, 9, 9]]\<rparr>"
proof -
  let ?out = "\<lparr>type = IMAGING_TYPE_UINT8, bands = 3, xsize = 1, ysize = 1, image = [[9, 9, 9, 9 :: UINT8]]\<rparr>"
  let ?in = "\<lparr>type = IMAGING_TYPE_UINT8, bands = 3, xsize = 1, ysize = 1, image = [replicate 20 (0 :: UINT8)]\<rparr>"
  let ?in2 = "\<lparr>type = IMAGING_TYPE_UINT8, bands = 2, xsize = 1, ysize = 1, image = [replicate 20 (0 :: UINT8)]\<rparr>"
  have p: "lut_checks_pass ?out ?in 3" by (simp add: lut_checks_pass_def)
  have b: "buffers_ok ?out ?in 2 2 2 (replicate 26 0)" by (simp add: buffers_ok_def)
  have m: "3 \<le> (3 :: int) \<and> (3 :: int) \<le> 4 \<and>
        (type ?in2 \<noteq> IMAGING_TYPE_UINT8 \<or> type ?out \<noteq> IMAGING_TYPE_UINT8 \<or>
         bands ?in2 < 3 \<or> bands ?out < 3 \<or> (bands ?out > 3 \<and> bands ?out > bands ?in2))" by simp
  from C2_error_behaviour[of ?out ?in 3 2 2 2 "replicate 26 0", unfolded Let_def] p b
  have 1: "fst (ImagingColorLUT3D_linear ?out ?in 3 2 2 2 (replicate 26 0)) = None" by simp
  from C2_error_behaviour[of ?out ?in2 3 2 2 2 "replicate 26 0", unfolded Let_def] m
  have 2: "fst (ImagingColorLUT3D_linear ?out ?in2 3 2 2 2 (replicate 26 0)) = Some ModeError"
    and 3: "snd (ImagingColorLUT3D_linear ?out ?in2 3 2 2 2 (replicate 26 0)) = ?out" by blast+
  from p b 1 2 3 show ?thesis by blast
qed

subsection \<open>C3: the grid index stays below the last cell\<close>

text \<open>
  C3 as stated fails in its last part: each corner pair is fetched by a 16-byte load,
  which reads eight table elements where six are used.  With a 2x2x2 table that holds
  exactly its \<open>3 * 2 * 2 * 2 = 24\<close> values, the fourth load of a pixel at (0,0,0) starts
  at element 18 and reads elements 18..25.
\<close>

theorem C3_gather_counterexample:
  "length (replicate 24 (0 :: INT16)) = 3 * (2 * 2 * 2) \<and>
   lut_idx 3 (index_mul 2 (2 * 2)) (lut_index (scale 2 2 2) (m128i_of_bytes (replicate 16 0)))
     + 2 * 2 * 3 + 2 * 3 = 18 \<and>
   mm_loadu_si128 (replicate 24 0)
     (lut_idx 3 (index_mul 2 (2 * 2)) (lut_index (scale 2 2 2) (m128i_of_bytes (replicate 16 0)))
        + 2 * 2 * 3 + 2 * 3) = None \<and>
   lut3_blend (replicate 24 0)
     (lut_idx 3 (index_mul 2 (2 * 2)) (lut_index (scale 2 2 2) (m128i_of_bytes (replicate 16 0))))
     2 (2 * 2) (lut_shift (lut_index (scale 2 2 2) (m128i_of_bytes (replicate 16 0)))) = None"
proof -
  have i: "lut_idx 3 (index_mul 2 (2 * 2)) (lut_index (scale 2 2 2) (m128i_of_bytes (replicate 16 0))) = 0"
    unfolding lut_index_zero using pixel_idx_value[of 2 2 2 3 0 0 0] by (simp add: grid_zero)
  show ?thesis unfolding i lut3_blend_eq_None mm_loadu_si128_eq_None by simp
qed

text \<open>
  C3, amended: for every grid size in [2,65] and every 8-bit input channel value
  (including 255), the integer grid index obtained by multiplying the input value by the
  precomputed scale and shifting right by \<open>SCALE_BITS\<close> is at most \<open>size - 2\<close> in that
  axis, so the eight corner vectors at base index and base index + 1 per axis lie
  inside the \<open>size1D * size2D * size3D\<close> grid; each of the four 16-byte loads that fetch
  them reads eight consecutive table elements and ends at most two elements past the
  last element of the grid.
\<close>

theorem C3_index_bound:
  assumes "2 \<le> size1D" "size1D \<le> 65" "2 \<le> size2D" "size2D \<le> 65" "2 \<le> size3D" "size3D \<le> 65"
  shows "let index = lut_index (scale size1D size2D size3D) px;
             idx = lut_idx 3 (index_mul size1D (size1D * size2D)) index
         in uint (lane (mm_srli_epi32 index SCALE_BITS) 0) \<le> size1D - 2 \<and>
            uint (lane (mm_srli_epi32 index SCALE_BITS) 1) \<le> size2D - 2 \<and>
            uint (lane (mm_srli_epi32 index SCALE_BITS) 2) \<le> size3D - 2 \<and>
            (\<forall>di\<in>{0, 1}. \<forall>dj\<in>{0, 1}. \<forall>dk\<in>{0, 1}. \<forall>c\<in>{0, 1, 2}.
               0 \<le> idx + 3 * di + size1D * 3 * dj + size1D * size2D * 3 * dk + c \<and>
               idx + 3 * di + size1D * 3 * dj + size1D * size2D * 3 * dk + c
                 < 3 * (size1D * size2D * size3D)) \<and>
            (\<forall>off\<in>{idx + 0, idx + size1D * 3, idx + size1D * size2D * 3,
                    idx + size1D * size2D * 3 + size1D * 3}.
               0 \<le> off \<and> off + 8 \<le> 3 * (size1D * size2D * size3D) + 2)"
proof -
  define r where "r = m128i_bytes px ! 0"
  define g where "g = m128i_bytes px ! 1"
  define b where "b = m128i_bytes px ! 2"
  define n where "n = grid_node size1D size2D size3D r g b"
  define s12 where "s12 = size1D * size2D"
  define N where "N = s12 * size3D"
  have ix: "lut_index (scale size1D size2D size3D) px = pixel_index size1D size2D size3D r g b"
    unfolding r_def g_def b_def by (rule lut_index_pixel)
  have idx: "lut_idx 3 (index_mul size1D s12) (pixel_index size1D size2D size3D r g b) = 3 * n"
    unfolding n_def s12_def by (rule pixel_idx_value[OF assms])
  note l = lut_index_srli_lanes[OF assms, of r g b]
  note i = grid_index_range[OF assms(1,2), of r] grid_index_range[OF assms(3,4), of g]
    grid_index_range[OF assms(5,6), of b]
  have n: "0 \<le> n" "n + s12 + size1D + 2 \<le> N"
    using grid_node_range[OF assms, of r g b] unfolding n_def s12_def N_def by simp_all
  have s: "0 \<le> s12" "2 \<le> size1D" using size_product_range[OF assms(1-4)] assms(1) unfolding s12_def by simp_all
  have corners: "\<forall>di\<in>{0, 1}. \<forall>dj\<in>{0, 1}. \<forall>dk\<in>{0, 1}. \<forall>c\<in>{0, 1, 2}.
               0 \<le> 3 * n + 3 * di + size1D * 3 * dj + s12 * 3 * dk + c \<and>
               3 * n + 3 * di + size1D * 3 * dj + s12 * 3 * dk + c < 3 * N"
    using n s by simp
  have loads: "\<forall>off\<in>{3 * n + 0, 3 * n + size1D * 3, 3 * n + s12 * 3, 3 * n + s12 * 3 + size1D * 3}.
               0 \<le> off \<and> off + 8 \<le> 3 * N + 2"
    using n s by simp
  show ?thesis
    unfolding Let_def ix l s12_def[symmetric] idx N_def[symmetric]
    using i(2,4,6) corners loads by blast
qed

theorem C3_index_bound_witness:
  "(2 :: int) \<le> 65 \<and>
   uint (lane (mm_srli_epi32 (lut_index (scale 65 65 65) (M128 0xffffffff 0 0 0)) SCALE_BITS) 0) \<le> 65 - 2"
  using C3_index_bound[of 65 65 65 "M128 0xffffffff 0 0 0"] unfolding Let_def by simp

subsection \<open>C4: four-channel tables\<close>

text \<open>
  C4 does not hold for the code: the block for \<open>table_channels = 4\<close> is commented out
  (lines 188-205), so a call with a four-channel table passes the checks, stores
  nothing and returns the output image as it was.  Here a 1x1 image whose pixel lies on
  grid node 0 of a table holding 16320 everywhere keeps its bytes (9, 9, 9, 9); the
  claim requires (255, 255, 255, 255).
\<close>

theorem C4_four_channels_store_nothing:
  "ImagingColorLUT3D_linear
      \<lparr>type = IMAGING_TYPE_UINT8, bands = 4, xsize = 1, ysize = 1, image = [[9, 9, 9, 9]]\<rparr>
      \<lparr>type = IMAGING_TYPE_UINT8, bands = 4, xsize = 1, ysize = 1, image = [replicate 20 0]\<rparr>
      4 2 2 2 (replicate 34 16320)
     = (None, \<lparr>type = IMAGING_TYPE_UINT8, bands = 4, xsize = 1, ysize = 1, image = [[9, 9, 9, 9]]\<rparr>)"
  by (rule transform_4) (simp_all add: lut_checks_pass_def buffers_ok_def)

theorem C4_four_channels_store_nothing_witness:
  "fst (ImagingColorLUT3D_linear
      \<lparr>type = IMAGING_TYPE_UINT8, bands = 4, xsize = 1, ysize = 1, image = [[9, 9, 9, 9]]\<rparr>
      \<lparr>type = IMAGING_TYPE_UINT8, bands = 4, xsize = 1, ysize = 1, image = [replicate 20 0]\<rparr>
      4 2 2 2 (replicate 34 16320)) = None \<and>
   image (snd (ImagingColorLUT3D_linear
      \<lparr>type = IMAGING_TYPE_UINT8, bands = 4, xsize = 1, ysize = 1, image = [[9, 9, 9, 9]]\<rparr>
      \<lparr>type = IMAGING_TYPE_UINT8, bands = 4, xsize = 1, ysize = 1, image = [replicate 20 0]\<rparr>
      4 2 2 2 (replicate 34 16320))) ! 0 = [9, 9, 9, 9]"
  using C4_four_channels_store_nothing by simp

subsection \<open>C5: the fourth band of the output\<close>

text \<open>
  C5 does not hold for the code: the store \<^verbatim>\<open>rowOut[x] = ...\<close> writes all four bytes of
  the pixel, and the fourth lane of the result register is always 0.  Here the fourth
  band of the output pixel is 255 before the call and 0 after it.
\<close>

theorem C5_fourth_band_overwritten:
  "image \<lparr>type = IMAGING_TYPE_UINT8, bands = 4, xsize = 1, ysize = 1, image = [[9, 9, 9, 255 :: UINT8]]\<rparr> ! 0 ! 3 = 255 \<and>
   fst (ImagingColorLUT3D_linear
      \<lparr>type = IMAGING_TYPE_UINT8, bands = 4, xsize = 1, ysize = 1, image = [[9, 9, 9, 255]]\<rparr>
      \<lparr>type = IMAGING_TYPE_UINT8, bands = 4, xsize = 1, ysize = 1, image = [[0, 0, 0, 255] @ replicate 16 0]\<rparr>
      3 2 2 2 identity_table_2) = None \<and>
   image (snd (ImagingColorLUT3D_linear
      \<lparr>type = IMAGING_TYPE_UINT8, bands = 4, xsize = 1, ysize = 1, image = [[9, 9, 9, 255]]\<rparr>
      \<lparr>type = IMAGING_TYPE_UINT8, bands = 4, xsize = 1, ysize = 1, image = [[0, 0, 0, 255] @ replicate 16 0]\<rparr>
      3 2 2 2 identity_table_2)) ! 0 ! 3 = 0"
proof -
  let ?out = "\<lparr>type = IMAGING_TYPE_UINT8, bands = 4, xsize = 1, ysize = 1, image = [[9, 9, 9, 255 :: UINT8]]\<rparr>"
  let ?in = "\<lparr>type = IMAGING_TYPE_UINT8, bands = 4, xsize = 1, ysize = 1, image = [[0, 0, 0, 255 :: UINT8] @ replicate 16 0]\<rparr>"
  have p: "lut_checks_pass ?out ?in 3" by (simp add: lut_checks_pass_def)
  have b: "buffers_ok ?out ?in 2 2 2 identity_table_2" by (simp add: buffers_ok_def identity_table_2_def)
  have 1: "fst (ImagingColorLUT3D_linear ?out ?in 3 2 2 2 identity_table_2) = None"
    by (rule transform_3_pixel(1)[OF p _ _ _ _ _ _ b, of 0 0]) simp_all
  have 2: "image (snd (ImagingColorLUT3D_linear ?out ?in 3 2 2 2 identity_table_2)) ! 0 ! (4 * 0 + 3) = 0"
    by (rule transform_3_pixel(3)[OF p _ _ _ _ _ _ b, of 0 0]) simp_all
  from 1 2 show ?thesis by simp
qed

theorem C5_fourth_band_overwritten_witness:
  "image (snd (ImagingColorLUT3D_linear
      \<lparr>type = IMAGING_TYPE_UINT8, bands = 4, xsize = 1, ysize = 1, image = [[9, 9, 9, 255]]\<rparr>
      \<lparr>type = IMAGING_TYPE_UINT8, bands = 4, xsize = 1, ysize = 1, image = [[0, 0, 0, 255] @ replicate 16 0]\<rparr>
      3 2 2 2 identity_table_2)) ! 0 ! 3
   \<noteq> image \<lparr>type = IMAGING_TYPE_UINT8, bands = 4, xsize = 1, ysize = 1, image = [[9, 9, 9, 255 :: UINT8]]\<rparr> ! 0 ! 3"
  using C5_fourth_band_overwritten by simp

subsection \<open>C6: the identity table\<close>

text \<open>
  C6 does not hold for the code: \<open>index\<close> and \<open>idx\<close> are computed from the first pixel
  of a row and never advanced (the loop computes \<open>next_index\<close> and \<open>next_idx\<close> and drops
  them), so every pixel of a row receives the value of the row's first pixel.  With the
  2x2x2 identity table and the row (0,0,0), (255,255,255), the first channel of the
  second output pixel is 0 where the input has 255.
\<close>

theorem C6_identity_second_pixel:
  "image \<lparr>type = IMAGING_TYPE_UINT8, bands = 3, xsize = 2, ysize = 1,
          image = [[0, 0, 0, 255, 255, 255, 255, 255 :: UINT8] @ replicate 16 0]\<rparr> ! 0 ! 4 = 255 \<and>
   fst (ImagingColorLUT3D_linear
      \<lparr>type = IMAGING_TYPE_UINT8, bands = 3, xsize = 2, ysize = 1, image = [[9, 9, 9, 9, 9, 9, 9, 9]]\<rparr>
      \<lparr>type = IMAGING_TYPE_UINT8, bands = 3, xsize = 2, ysize = 1,
        image = [[0, 0, 0, 255, 255, 255, 255, 255] @ replicate 16 0]\<rparr>
      3 2 2 2 identity_table_2) = None \<and>
   image (snd (ImagingColorLUT3D_linear
      \<lparr>type = IMAGING_TYPE_UINT8, bands = 3, xsize = 2, ysize = 1, image = [[9, 9, 9, 9, 9, 9, 9, 9]]\<rparr>
      \<lparr>type = IMAGING_TYPE_UINT8, bands = 3, xsize = 2, ysize = 1,
        image = [[0, 0, 0, 255, 255, 255, 255, 255] @ replicate 16 0]\<rparr>
      3 2 2 2 identity_table_2)) ! 0 ! 4 = 0"
proof -
  let ?out = "\<lparr>type = IMAGING_TYPE_UINT8, bands = 3, xsize = 2, ysize = 1, image = [[9, 9, 9, 9, 9, 9, 9, 9 :: UINT8]]\<rparr>"
  let ?in = "\<lparr>type = IMAGING_TYPE_UINT8, bands = 3, xsize = 2, ysize = 1,
        image = [[0, 0, 0, 255, 255, 255, 255, 255 :: UINT8] @ replicate 16 0]\<rparr>"
  have p: "lut_checks_pass ?out ?in 3" by (simp add: lut_checks_pass_def)
  have b: "buffers_ok ?out ?in 2 2 2 identity_table_2" by (simp add: buffers_ok_def identity_table_2_def)
  have 1: "fst (ImagingColorLUT3D_linear ?out ?in 3 2 2 2 identity_table_2) = None"
    by (rule transform_3_pixel(1)[OF p _ _ _ _ _ _ b, of 0 0]) simp_all
  have "image (snd (ImagingColorLUT3D_linear ?out ?in 3 2 2 2 identity_table_2)) ! 0 ! (4 * 1 + 0)
      = scalar_lut3_biased identity_table_2 0 2 4 0 0 0 ! 0"
    using transform_3_pixel(2)[OF p _ _ _ _ _ _ b, of 0 1 0] by (simp add: grid_zero)
  then have 2: "image (snd (ImagingColorLUT3D_linear ?out ?in 3 2 2 2 identity_table_2)) ! 0 ! 4 = 0"
    by (simp add: identity_table_2_first_zero)
  from 1 2 show ?thesis by simp
qed

theorem C6_identity_second_pixel_witness:
  "image (snd (ImagingColorLUT3D_linear
      \<lparr>type = IMAGING_TYPE_UINT8, bands = 3, xsize = 2, ysize = 1, image = [[9, 9, 9, 9, 9, 9, 9, 9]]\<rparr>
      \<lparr>type = IMAGING_TYPE_UINT8, bands = 3, xsize = 2, ysize = 1,
        image = [[0, 0, 0, 255, 255, 255, 255, 255] @ replicate 16 0]\<rparr>
      3 2 2 2 identity_table_2)) ! 0 ! 4
   \<noteq> image \<lparr>type = IMAGING_TYPE_UINT8, bands = 3, xsize = 2, ysize = 1,
          image = [[0, 0, 0, 255, 255, 255, 255, 255 :: UINT8] @ replicate 16 0]\<rparr> ! 0 ! 4"
  using C6_identity_second_pixel by simp

subsection \<open>C7: vector code against the scalar formula\<close>

text \<open>
  C7 as stated fails: \<open>interpolate3\<close> weighs the first operand with
  \<open>2 ^ SHIFT_BITS - shift\<close>, the vector code with \<open>2 ^ SHIFT_BITS - 1 - shift\<close>.  For a
  table that holds 32 everywhere and a pixel on a grid node (all fractions 0) the
  vector code stores 0 in each channel where the scalar formula gives 1.
\<close>

theorem C7_scalar_counterexample:
  "map_option (take 3 \<circ> bytes32) (lut3_pixel (replicate 26 32) 0 2 4 (M128 0 0 0 0)) = Some [0, 0, 0] \<and>
   scalar_lut3 (replicate 26 32) 0 2 4
     (lo16 (lane (lut_frac (M128 0 0 0 0)) 0)) (lo16 (lane (lut_frac (M128 0 0 0 0)) 1))
     (lo16 (lane (lut_frac (M128 0 0 0 0)) 2)) = [1, 1, 1]"
proof -
  have f: "frac_lane 0 = 0" by (simp add: frac_lane_def)
  obtain v where v: "lut3_pixel (replicate 26 32) 0 2 4 (M128 0 0 0 0) = Some v"
    using lut3_pixel_Some[of 0 2 4 "replicate 26 32" "M128 0 0 0 0"] by auto
  have t: "table3 (replicate 26 32) k = (32, 32, 32)" if "0 \<le> k" "k \<le> 23" for k
    using that by (simp add: table3_def)
  have b: "interpolate1_biased 32 32 0 = 31" "interpolate1_biased 31 31 0 = 30"
      "interpolate1_biased 30 30 0 = 29"
    by (simp_all add: interpolate1_biased_def SHIFT_BITS_def)
  have u: "interpolate1 32 32 0 = 32" by (simp add: interpolate1_def SHIFT_BITS_def)
  have c: "clip8 29 = 0" "clip8 32 = 1"
    by (simp_all add: clip8_def clip8_lookups_def PRECISION_ROUNDING_def PRECISION_BITS_def)
  have "take 3 (bytes32 v) = [0, 0, 0]"
    unfolding lut3_pixel_biased[OF v] lut_frac_lane f
    by (simp add: scalar_lut3_biased_def lo16_def t b c)
  moreover have "scalar_lut3 (replicate 26 32) 0 2 4
     (lo16 (lane (lut_frac (M128 0 0 0 0)) 0)) (lo16 (lane (lut_frac (M128 0 0 0 0)) 1))
     (lo16 (lane (lut_frac (M128 0 0 0 0)) 2)) = [1, 1, 1]"
    unfolding lut_frac_lane f by (simp add: scalar_lut3_def lo16_def t u c)
  ultimately show ?thesis using v by simp
qed

text \<open>
  C7, amended: for every table, table offset and coordinate register for which the four
  table loads are in range, the three channel bytes stored by the vectorized 8-corner
  gather-and-blend equal the scalar formula of nested 2-input lerps
  \<open>out = (a * ((1 << SHIFT_BITS) - 1 - shift) + b * shift) >> SHIFT_BITS\<close> applied along
  axis 0, then axis 1, then axis 2, followed by the rounding clip.
\<close>

theorem C7_simd_scalar_biased:
  assumes "lut3_pixel table idx size1D size1D_2D index = Some v"
  shows "take 3 (bytes32 v) =
     scalar_lut3_biased table idx size1D size1D_2D
       (lo16 (lane (lut_frac index) 0)) (lo16 (lane (lut_frac index) 1)) (lo16 (lane (lut_frac index) 2))"
  using assms by (rule lut3_pixel_biased)

theorem C7_simd_scalar_biased_witness:
  "lut3_pixel (replicate 26 32) 0 2 4 (M128 131072 0 0 0) \<noteq> None \<and>
   take 3 (bytes32 (the (lut3_pixel (replicate 26 32) 0 2 4 (M128 131072 0 0 0)))) =
     scalar_lut3_biased (replicate 26 32) 0 2 4
       (lo16 (lane (lut_frac (M128 131072 0 0 0)) 0)) (lo16 (lane (lut_frac (M128 131072 0 0 0)) 1))
       (lo16 (lane (lut_frac (M128 131072 0 0 0)) 2))"
proof -
  obtain v where v: "lut3_pixel (replicate 26 32) 0 2 4 (M128 131072 0 0 0) = Some v"
    using lut3_pixel_Some[of 0 2 4 "replicate 26 32" "M128 131072 0 0 0"] by auto
  from C7_simd_scalar_biased[OF v] v show ?thesis by simp
qed

subsection \<open>C8: no overflow in the 16-bit lanes\<close>

text \<open>
  C8: for every table whose stored values lie in \<open>[0, 255 << PRECISION_BITS]\<close>, each of
  the three nested axis blends holds in its lane exactly the integer
  \<open>(a * w0 + b * w1) >> SHIFT_BITS\<close> of its two inputs (\<open>lerp15\<close>, with
  \<open>w0 + w1 = 2 ^ SHIFT_BITS - 1\<close>), and every such value lies in
  \<open>[0, 255 << PRECISION_BITS]\<close>: no stage wraps around in a 16-bit lane.  The third
  blend is kept unshifted in a 32-bit lane; it holds the exact sum, and the sum
  shifted by \<open>SHIFT_BITS\<close> is in the same range.
\<close>

theorem C8_no_lane_overflow:
  assumes "lut3_blend table idx size1D size1D_2D (lut_shift index) = Some regs"
    and "list_all (\<lambda>v. 0 \<le> sint v \<and> sint v \<le> 255 * 2 ^ PRECISION_BITS) table"
    and "c < 3"
  shows "let f1 = uint (lane (lut_frac index) 0);
             f2 = uint (lane (lut_frac index) 1);
             f3 = uint (lane (lut_frac index) 2);
             ll = sint (lo16 (lane (leftleft regs) c));
             lr = sint (hi16 (lane (leftright regs) c));
             rl = sint (lo16 (lane (rightleft regs) c));
             rr = sint (hi16 (lane (rightright regs) c));
             l = sint (lo16 (lane (left regs) c));
             r = sint (hi16 (lane (right regs) c));
             res = sint (lane (result regs) c)
         in ll = lerp15 (sint (table ! (nat (idx + 0) + c))) (sint (table ! (nat (idx + 0) + 3 + c))) f1 \<and>
            lr = lerp15 (sint (table ! (nat (idx + size1D * 3) + c)))
                        (sint (table ! (nat (idx + size1D * 3) + 3 + c))) f1 \<and>
            rl = lerp15 (sint (table ! (nat (idx + size1D_2D * 3) + c)))
                        (sint (table ! (nat (idx + size1D_2D * 3) + 3 + c))) f1 \<and>
            rr = lerp15 (sint (table ! (nat (idx + size1D_2D * 3 + size1D * 3) + c)))
                        (sint (table ! (nat (idx + size1D_2D * 3 + size1D * 3) + 3 + c))) f1 \<and>
            l = lerp15 ll lr f2 \<and> r = lerp15 rl rr f2 \<and>
            res = l * (2 ^ SHIFT_BITS - 1 - f3) + r * f3 \<and>
            res div 2 ^ SHIFT_BITS = lerp15 l r f3 \<and>
            list_all (\<lambda>v. 0 \<le> v \<and> v \<le> 255 * 2 ^ PRECISION_BITS)
              [ll, lr, rl, rr, l, r, res div 2 ^ SHIFT_BITS]"
proof (cases index)
  case (M128 x0 x1 x2 x3)
  note regs = assms(1)[unfolded M128]
  note v = lut3_blend_values[OF regs assms(3)]
  note d = lut3_blend_Some_D[OF regs]
  have tb: "0 \<le> sint (table ! k) \<and> sint (table ! k) \<le> 16320" if "k < length table" for k
    using assms(2) that by (simp add: list_all_length PRECISION_BITS_def)
  have k: "nat (idx + 0) + c < length table" "nat (idx + 0) + 3 + c < length table"
      "nat (idx + size1D * 3) + c < length table" "nat (idx + size1D * 3) + 3 + c < length table"
      "nat (idx + size1D_2D * 3) + c < length table" "nat (idx + size1D_2D * 3) + 3 + c < length table"
      "nat (idx + size1D_2D * 3 + size1D * 3) + c < length table"
      "nat (idx + size1D_2D * 3 + size1D * 3) + 3 + c < length table"
    using d assms(3) by linarith+
  note f = frac_lane_range
  define ll where "ll = sint (lo16 (lane (leftleft regs) c))"
  define lr where "lr = sint (hi16 (lane (leftright regs) c))"
  define rl where "rl = sint (lo16 (lane (rightleft regs) c))"
  define rr where "rr = sint (hi16 (lane (rightright regs) c))"
  define l where "l = sint (lo16 (lane (left regs) c))"
  define r where "r = sint (hi16 (lane (right regs) c))"
  note w = v[folded ll_def lr_def rl_def rr_def l_def r_def]
  have bll: "0 \<le> ll" "ll \<le> 16320" unfolding w(1)
    using tb[OF k(1)] tb[OF k(2)] f[of x0] by (simp_all add: lerp15_in_range)
  have blr: "0 \<le> lr" "lr \<le> 16320" unfolding w(2)
    using tb[OF k(3)] tb[OF k(4)] f[of x0] by (simp_all add: lerp15_in_range)
  have brl: "0 \<le> rl" "rl \<le> 16320" unfolding w(3)
    using tb[OF k(5)] tb[OF k(6)] f[of x0] by (simp_all add: lerp15_in_range)
  have brr: "0 \<le> rr" "rr \<le> 16320" unfolding w(4)
    using tb[OF k(7)] tb[OF k(8)] f[of x0] by (simp_all add: lerp15_in_range)
  have bl: "0 \<le> l" "l \<le> 16320" unfolding w(5)
    using bll blr f[of x1] by (simp_all add: lerp15_in_range)
  have br: "0 \<le> r" "r \<le> 16320" unfolding w(6)
    using brl brr f[of x1] by (simp_all add: lerp15_in_range)
  have res: "sint (lane (result regs) c) div 2 ^ SHIFT_BITS = lerp15 l r (uint (frac_lane x2))"
    unfolding w(7) by (simp add: lerp15_def SHIFT_BITS_def)
  have bres: "0 \<le> lerp15 l r (uint (frac_lane x2))" "lerp15 l r (uint (frac_lane x2)) \<le> 16320"
    using bl br f[of x2] by (simp_all add: lerp15_in_range)
  have c15: "(2 :: int) ^ SHIFT_BITS - 1 = 32767" and p: "(255 :: int) * 2 ^ PRECISION_BITS = 16320"
    by (simp_all add: SHIFT_BITS_def PRECISION_BITS_def)
  show ?thesis
    unfolding Let_def M128 lut_frac_lane c15 p res
    unfolding ll_def[symmetric] lr_def[symmetric] rl_def[symmetric] rr_def[symmetric]
      l_def[symmetric] r_def[symmetric]
    using w bll blr brl brr bl br bres by simp
qed

theorem C8_no_lane_overflow_witness:
  "lut3_blend (replicate 26 16320) 0 2 4 (lut_shift (M128 131072 0 0 0)) \<noteq> None \<and>
   list_all (\<lambda>v. 0 \<le> sint v \<and> sint v \<le> 255 * 2 ^ PRECISION_BITS) (replicate 26 (16320 :: INT16)) \<and>
   sint (lo16 (lane (leftleft (the (lut3_blend (replicate 26 16320) 0 2 4 (lut_shift (M128 131072 0 0 0))))) 0))
     = 16319"
proof -
  have n: "lut3_blend (replicate 26 16320) 0 2 4 (lut_shift (M128 131072 0 0 0)) \<noteq> None"
    unfolding lut3_blend_eq_None mm_loadu_si128_eq_None by simp
  then obtain regs where
    regs: "lut3_blend (replicate 26 16320) 0 2 4 (lut_shift (M128 131072 0 0 0)) = Some regs" by blast
  have t: "list_all (\<lambda>v. 0 \<le> sint v \<and> sint v \<le> 255 * 2 ^ PRECISION_BITS) (replicate 26 (16320 :: INT16))"
    by (simp add: PRECISION_BITS_def list_all_length)
  have f: "uint (frac_lane 131072) = 16384" by (simp add: uint_frac_lane)
  have "sint (lo16 (lane (leftleft regs) 0)) =
      lerp15 (sint (replicate 26 (16320 :: INT16) ! (nat (0 + 0) + 0)))
             (sint (replicate 26 (16320 :: INT16) ! (nat (0 + 0) + 3 + 0))) (uint (lane (lut_frac (M128 131072 0 0 0)) 0))"
    using C8_no_lane_overflow[OF regs t, of 0] unfolding Let_def by simp
  then have "sint (lo16 (lane (leftleft regs) 0)) = 16319"
    unfolding lut_frac_lane f by (simp add: lerp15_def)
  with n t regs show ?thesis by simp
qed

subsection \<open>C9: pixel locality\<close>

text \<open>
  C9 does not hold for the code, by the same defect as C6: the output at \<open>(x, y)\<close>
  depends on the input pixel at \<open>(0, y)\<close>, not on the one at \<open>(x, y)\<close>.  The two input
  rows (0,0,0), (0,0,0) and (255,0,0), (0,0,0) agree on the pixel at (1,0); with the
  same 2x2x2 identity table the first channel of the output pixel at (1,0) is 0 for
  the first row and 255 for the second.
\<close>

theorem C9_locality_two_runs:
  "take 4 (drop 4 (image \<lparr>type = IMAGING_TYPE_UINT8, bands = 3, xsize = 2, ysize = 1,
        image = [[0, 0, 0, 255, 0, 0, 0, 255 :: UINT8] @ replicate 16 0]\<rparr> ! 0)) =
   take 4 (drop 4 (image \<lparr>type = IMAGING_TYPE_UINT8, bands = 3, xsize = 2, ysize = 1,
        image = [[255, 0, 0, 255, 0, 0, 0, 255 :: UINT8] @ replicate 16 0]\<rparr> ! 0)) \<and>
   image (snd (ImagingColorLUT3D_linear
      \<lparr>type = IMAGING_TYPE_UINT8, bands = 3, xsize = 2, ysize = 1, image = [[9, 9, 9, 9, 9, 9, 9, 9]]\<rparr>
      \<lparr>type = IMAGING_TYPE_UINT8, bands = 3, xsize = 2, ysize = 1,
        image = [[0, 0, 0, 255, 0, 0, 0, 255] @ replicate 16 0]\<rparr>
      3 2 2 2 identity_table_2)) ! 0 ! 4 = 0 \<and>
   image (snd (ImagingColorLUT3D_linear
      \<lparr>type = IMAGING_TYPE_UINT8, bands = 3, xsize = 2, ysize = 1, image = [[9, 9, 9, 9, 9, 9, 9, 9]]\<rparr>
      \<lparr>type = IMAGING_TYPE_UINT8, bands = 3, xsize = 2, ysize = 1,
        image = [[255, 0, 0, 255, 0, 0, 0, 255] @ replicate 16 0]\<rparr>
      3 2 2 2 identity_table_2)) ! 0 ! 4 = 255"
proof -
  let ?out = "\<lparr>type = IMAGING_TYPE_UINT8, bands = 3, xsize = 2, ysize = 1, image = [[9, 9, 9, 9, 9, 9, 9, 9 :: UINT8]]\<rparr>"
  let ?inA = "\<lparr>type = IMAGING_TYPE_UINT8, bands = 3, xsize = 2, ysize = 1,
        image = [[0, 0, 0, 255, 0, 0, 0, 255 :: UINT8] @ replicate 16 0]\<rparr>"
  let ?inB = "\<lparr>type = IMAGING_TYPE_UINT8, bands = 3, xsize = 2, ysize = 1,
        image = [[255, 0, 0, 255, 0, 0, 0, 255 :: UINT8] @ replicate 16 0]\<rparr>"
  have pA: "lut_checks_pass ?out ?inA 3" and pB: "lut_checks_pass ?out ?inB 3"
    by (simp_all add: lut_checks_pass_def)
  have bA: "buffers_ok ?out ?inA 2 2 2 identity_table_2" and bB: "buffers_ok ?out ?inB 2 2 2 identity_table_2"
    by (simp_all add: buffers_ok_def identity_table_2_def)
  have "image (snd (ImagingColorLUT3D_linear ?out ?inA 3 2 2 2 identity_table_2)) ! 0 ! (4 * 1 + 0)
      = scalar_lut3_biased identity_table_2 0 2 4 0 0 0 ! 0"
    using transform_3_pixel(2)[OF pA _ _ _ _ _ _ bA, of 0 1 0] by (simp add: grid_zero)
  then have A: "image (snd (ImagingColorLUT3D_linear ?out ?inA 3 2 2 2 identity_table_2)) ! 0 ! 4 = 0"
    by (simp add: identity_table_2_first_zero)
  have n: "grid_node 2 2 2 255 0 0 = 0"
    by (simp add: grid_node_def table_index3D_def grid_255_size2 grid_zero)
  have "image (snd (ImagingColorLUT3D_linear ?out ?inB 3 2 2 2 identity_table_2)) ! 0 ! (4 * 1 + 0)
      = scalar_lut3_biased identity_table_2 0 2 4 32767 0 0 ! 0"
    using transform_3_pixel(2)[OF pB _ _ _ _ _ _ bB, of 0 1 0] by (simp add: n grid_zero grid_255_size2)
  then have B: "image (snd (ImagingColorLUT3D_linear ?out ?inB 3 2 2 2 identity_table_2)) ! 0 ! 4 = 255"
    by (simp add: identity_table_2_first_full)
  from A B show ?thesis by simp
qed

theorem C9_locality_two_runs_witness:
  "image (snd (ImagingColorLUT3D_linear
      \<lparr>type = IMAGING_TYPE_UINT8, bands = 3, xsize = 2, ysize = 1, image = [[9, 9, 9, 9, 9, 9, 9, 9]]\<rparr>
      \<lparr>type = IMAGING_TYPE_UINT8, bands = 3, xsize = 2, ysize = 1,
        image = [[0, 0, 0, 255, 0, 0, 0, 255] @ replicate 16 0]\<rparr>
      3 2 2 2 identity_table_2)) ! 0 ! 4
   \<noteq> image (snd (ImagingColorLUT3D_linear
      \<lparr>type = IMAGING_TYPE_UINT8, bands = 3, xsize = 2, ysize = 1, image = [[9, 9, 9, 9, 9, 9, 9, 9]]\<rparr>
      \<lparr>type = IMAGING_TYPE_UINT8, bands = 3, xsize = 2, ysize = 1,
        image = [[255, 0, 0, 255, 0, 0, 0, 255] @ replicate 16 0]\<rparr>
      3 2 2 2 identity_table_2)) ! 0 ! 4"
  using C9_locality_two_runs by simp

subsection \<open>C10: the prefetch of the last pixel\<close>

text \<open>
  C10 as stated fails on its last part: a call on an image without rows passes the
  checks and returns the output image without a single prefetch, and without any other
  load (neither image has a row and the table is empty).
\<close>

theorem C10_every_call_counterexample:
  "lut_checks_pass
      \<lparr>type = IMAGING_TYPE_UINT8, bands = 3, xsize = 0, ysize = 0, image = []\<rparr>
      \<lparr>type = IMAGING_TYPE_UINT8, bands = 3, xsize = 0, ysize = 0, image = []\<rparr> 3 \<and>
   ImagingColorLUT3D_linear_traced
      \<lparr>type = IMAGING_TYPE_UINT8, bands = 3, xsize = 0, ysize = 0, image = []\<rparr>
      \<lparr>type = IMAGING_TYPE_UINT8, bands = 3, xsize = 0, ysize = 0, image = []\<rparr> 3 2 2 2 []
     = (None, \<lparr>type = IMAGING_TYPE_UINT8, bands = 3, xsize = 0, ysize = 0, image = []\<rparr>, [])"
proof -
  let ?im = "\<lparr>type = IMAGING_TYPE_UINT8, bands = 3, xsize = 0, ysize = 0, image = [] :: UINT8 list list\<rparr>"
  have p: "lut_checks_pass ?im ?im 3" by (simp add: lut_checks_pass_def)
  have "lut_rows 3 2 (2 * 2) (scale 2 2 2) [] (image ?im) (xsize ?im) (ysize ?im) 0 (image ?im) [] =
      (None, image ?im, [])"
    by (rule lut_rows_done) simp
  then have "ImagingColorLUT3D_linear_traced ?im ?im 3 2 2 2 [] = (None, ?im, [])"
    unfolding ImagingColorLUT3D_linear_traced_pass[OF p] by simp
  with p show ?thesis by blast
qed

text \<open>
  C10, amended: for every row of every call that returns the output image and has at
  least one pixel in a row (\<open>xsize \<ge> 1\<close>), while processing the last pixel
  \<open>x = xsize - 1\<close> the one-pixel-ahead prefetch reads the input row at pixel index
  \<open>xsize\<close> (bytes \<open>4 * xsize .. 4 * xsize + 15\<close>, the 16-byte load at
  \<open>&rowIn[x * 4 + 4]\<close>), an index outside the row's pixel range \<open>[0, xsize - 1]\<close>; where
  loads return an option, this read is \<open>None\<close> exactly when the row buffer has fewer
  than \<open>4 * xsize + 16\<close> readable bytes, and it is reached on every such call with at
  least one row.  The prefetches of a call are the third component of
  \<open>ImagingColorLUT3D_linear_traced\<close>, one list for each row.
\<close>

theorem C10_prefetch_overread:
  assumes "fst (ImagingColorLUT3D_linear_traced imOut imIn table_channels size1D size2D size3D table) = None"
    and "0 < xsize imOut" and "y < nat (ysize imOut)"
  shows
    "let reads = snd (snd (ImagingColorLUT3D_linear_traced imOut imIn table_channels size1D size2D size3D table));
         x = nat (xsize imOut) - 1
     in length reads = nat (ysize imOut) \<and> length (reads ! y) = nat (xsize imOut) \<and>
        reads ! y ! x = (int x * 4 + 4, load_si128 (image imIn ! y) (int x * 4 + 4)) \<and>
        int x * 4 + 4 = 4 * xsize imOut \<and>
        (load_si128 (image imIn ! y) (4 * xsize imOut) = None
           \<longleftrightarrow> length (image imIn ! y) < 4 * nat (xsize imOut) + 16)"
proof -
  define reads where
    "reads = snd (snd (ImagingColorLUT3D_linear_traced imOut imIn table_channels size1D size2D size3D table))"
  define x where "x = nat (xsize imOut) - 1"
  have x: "x < nat (xsize imOut)" unfolding x_def using assms(2) by simp
  have r: "reads = map (\<lambda>y. row_prefetches (image imIn ! y) 0 (nat (xsize imOut))) [0..<nat (ysize imOut)]"
    unfolding reads_def by (rule transform_reads(1)[OF assms(1)])
  have a: "length reads = nat (ysize imOut)" unfolding r by simp
  have ry: "reads ! y = row_prefetches (image imIn ! y) 0 (nat (xsize imOut))"
    unfolding r using assms(3) by simp
  note p = row_prefetches_nth[OF x, of "image imIn ! y"]
  have b: "length (reads ! y) = nat (xsize imOut)"
    and c: "reads ! y ! x = (int x * 4 + 4, load_si128 (image imIn ! y) (int x * 4 + 4))"
    unfolding ry using p by simp_all
  have d: "int x * 4 + 4 = 4 * xsize imOut" unfolding x_def using assms(2) by simp
  have "nat (4 * xsize imOut) = 4 * nat (xsize imOut)" by (simp add: nat_mult_distrib)
  then have e: "load_si128 (image imIn ! y) (4 * xsize imOut) = None
      \<longleftrightarrow> length (image imIn ! y) < 4 * nat (xsize imOut) + 16"
    unfolding load_si128_eq_None using assms(2) by auto
  from a b c d e show ?thesis unfolding Let_def reads_def[symmetric] x_def[symmetric] by blast
qed

theorem C10_prefetch_overread_witness:
  "fst (ImagingColorLUT3D_linear_traced
      \<lparr>type = IMAGING_TYPE_UINT8, bands = 3, xsize = 4, ysize = 1, image = [replicate 16 9]\<rparr>
      \<lparr>type = IMAGING_TYPE_UINT8, bands = 3, xsize = 4, ysize = 1,
       image = [[0, 0, 0, 255, 85, 170, 255, 255, 255, 255, 255, 255, 1, 2, 3, 255]]\<rparr>
      3 2 2 2 identity_table_2) = None \<and>
   length (image \<lparr>type = IMAGING_TYPE_UINT8, bands = 3, xsize = 4, ysize = 1,
       image = [[0, 0, 0, 255, 85, 170, 255, 255, 255, 255, 255, 255, 1, 2, 3, 255 :: UINT8]]\<rparr> ! 0) = 4 * nat 4 \<and>
   snd (snd (ImagingColorLUT3D_linear_traced
      \<lparr>type = IMAGING_TYPE_UINT8, bands = 3, xsize = 4, ysize = 1, image = [replicate 16 9]\<rparr>
      \<lparr>type = IMAGING_TYPE_UINT8, bands = 3, xsize = 4, ysize = 1,
       image = [[0, 0, 0, 255, 85, 170, 255, 255, 255, 255, 255, 255, 1, 2, 3, 255]]\<rparr>
      3 2 2 2 identity_table_2)) ! 0 ! 3 = (16, None)"
proof -
  let ?out = "\<lparr>type = IMAGING_TYPE_UINT8, bands = 3, xsize = 4, ysize = 1, image = [replicate 16 (9 :: UINT8)]\<rparr>"
  let ?in = "\<lparr>type = IMAGING_TYPE_UINT8, bands = 3, xsize = 4, ysize = 1,
       image = [[0, 0, 0, 255, 85, 170, 255, 255, 255, 255, 255, 255, 1, 2, 3, 255 :: UINT8]]\<rparr>"
  have p: "lut_checks_pass ?out ?in 3" by (simp add: lut_checks_pass_def)
  have ok: "fst (ImagingColorLUT3D_linear_traced ?out ?in 3 2 2 2 identity_table_2) = None"
  proof -
    have l: "nat (ysize ?out) \<le> length (image ?in)" "nat (ysize ?out) \<le> length (image ?out)"
      by simp_all
    have ri: "16 \<le> length (image ?in ! y)" if "y < nat (ysize ?out)" for y using that by simp
    have ro: "4 * nat (xsize ?out) \<le> length (image ?out ! y)" if "y < nat (ysize ?out)" for y
      using that by simp
    have len: "3 * nat (2 * 2 * 2) + 2 \<le> length identity_table_2" by (simp add: identity_table_2_def)
    have sz: "(2 :: int) \<le> 2" "(2 :: int) \<le> 65" by simp_all
    from transform_3_traced[OF p sz sz sz l ri ro len] show ?thesis by auto
  qed
  have l: "load_si128 (image ?in ! 0) 16 = None" by (simp add: load_si128_eq_None)
  from C10_prefetch_overread[OF ok, of 0] l
  have "snd (snd (ImagingColorLUT3D_linear_traced ?out ?in 3 2 2 2 identity_table_2)) ! 0 ! 3 = (16, None)"
    unfolding Let_def by simp
  with ok show ?thesis by simp
qed

end
